theory Spec2Isabelle
  imports Complex_Main
begin

section \<open>Python values, exceptions and the environment\<close>

text \<open>
  The client talks to a catalog over HTTP, sleeps between retries, draws random jitter and
  writes files. All of that is made explicit: the answers of the outside world are the
  fields of an environment record \<open>env\<close> (the n-th network call, the n-th random draw, the
  library routines \<open>int()\<close>, \<open>float()\<close>, \<open>str()\<close> and \<open>ZipFile.extractall\<close>), and
  everything the client changes is a field of the state record \<open>sys\<close>, passed in and
  returned. An exception is a value of type \<open>exn\<close>; an effectful routine returns
  \<open>(exn + 'a) \<times> sys\<close>, with \<open>Inl\<close> for a raise.

  Logging calls and the tqdm progress bars only report; they are left out.
\<close>

datatype exn =
    TransportError
  | HTTPError int
  | StreamError
  | SizeMismatch int int
  | ValueError
  | OverflowError
  | KeyError string
  | AttributeError
  | BadZipFile
  | FileNotFoundError string
  | FileExistsError string

text \<open>
  A parsed JSON value. \<open>JObj\<close> lists the items of a dict, each key once; \<open>JNull\<close> is
  Python's \<open>None\<close>.
\<close>

datatype json =
    JNull
  | JBool bool
  | JNum real
  | JStr string
  | JArr "json list"
  | JObj "(string \<times> json) list"

text \<open>
  A \<open>requests.Response\<close>: the status code, the headers, the result of \<open>resp.json()\<close>
  (\<open>None\<close> when it raises), and the body as \<open>iter_content\<close> yields it; \<open>stream_fails\<close>
  says that the iteration raises after the listed chunks (a broken connection, or a failed
  write to disk).
\<close>

record response =
  status_code :: int
  headers :: "string \<rightharpoonup> string"
  json_body :: "json option"
  chunks :: "string list"
  stream_fails :: bool

text \<open>
  A download URL as \<open>urlparse\<close> and \<open>parse_qs\<close> present it: the path and the query
  parameters (each key with its list of values).
\<close>

record url =
  url_text :: string
  url_path :: string
  url_query :: "string \<rightharpoonup> string list"

record env =
  prepare_request :: "nat \<Rightarrow> string \<Rightarrow> (string \<rightharpoonup> string) \<Rightarrow> exn + response option"
  get_access_token :: "nat \<Rightarrow> exn + string"
  requests_get :: "nat \<Rightarrow> url \<Rightarrow> exn + response"
  py_random :: "nat \<Rightarrow> real"
  sleep_limit :: real
  py_int :: "string \<Rightarrow> int option"
  py_float :: "string \<Rightarrow> real option"
  py_str :: "json \<Rightarrow> string"
  zip_extractall :: "string \<Rightarrow> (string \<rightharpoonup> string) option"

text \<open>
  \<open>prepare_request env n\<close> and \<open>requests_get env n\<close> are the outcome of a call made when
  \<open>n\<close> network calls have been issued before; \<open>py_random env n\<close> is the n-th value of
  \<open>random.random()\<close>. \<open>sleep_limit env\<close> is the longest length that \<open>time.sleep\<close>
  accepts (it turns the length into a 64-bit count of nanoseconds). \<open>py_int\<close> and
  \<open>py_float\<close> return \<open>None\<close> where Python raises \<open>ValueError\<close>. \<open>py_float\<close> gives a real
  number: where \<open>float()\<close> returns an infinity, it stands for a number beyond
  twice \<open>sleep_limit\<close> of the same sign, and where it returns NaN, for a negative number within
  the limit, which \<open>time.sleep\<close> refuses with the same exceptions. \<open>aaa.prepare_request\<close> is not part of the sources at hand: it is a
  parameter, free to return a response, return \<open>None\<close> or raise.
\<close>

record sys =
  files :: "string \<rightharpoonup> string"
  dirs :: "string \<rightharpoonup> (string \<rightharpoonup> string)"
  reqs :: nat
  draws :: nat
  slept :: "real list"
  img_info :: json

text \<open>The outcome of one pass through a retry loop's body.\<close>

datatype ('a, 'c) step = Return 'a | Raise exn | Continue 'c

section \<open>base.py: retry and backoff\<close>

text \<open>
  \<open>time.sleep\<close> first converts the length and raises \<open>OverflowError\<close> when it is out of
  range on either side, then raises \<open>ValueError\<close> when it is negative (and on NaN, see
  above). Lengths and delays are real numbers: the rounding of Python's floats is left
  out, and so is the \<open>OverflowError\<close> of \<open>2 ** (attempt - 1)\<close> times a float beyond a
  thousand attempts. \<open>slept\<close> records the sleeps of the two retry layers.
\<close>

definition time_sleep :: "env \<Rightarrow> real \<Rightarrow> sys \<Rightarrow> (exn + unit) \<times> sys" where
  "time_sleep e secs s =
     (if secs < - sleep_limit e \<or> sleep_limit e < secs then (Inl OverflowError, s)
      else if secs < 0 then (Inl ValueError, s)
      else (Inr (), s\<lparr>slept := slept s @ [secs]\<rparr>))"

text \<open>
  \<open>_sleep_for_retry\<close>, lines 39 to 48: the delay before jitter. \<open>Retry-After\<close> is read
  only on a 429, only when the header is a non-empty string that \<open>float()\<close> accepts.
\<close>

definition retry_after :: "env \<Rightarrow> response option \<Rightarrow> real option" where
  "retry_after e resp =
     (case resp of
        None \<Rightarrow> None
      | Some r \<Rightarrow>
          if status_code r = 429 then
            (case headers r ''Retry-After'' of
               None \<Rightarrow> None
             | Some ra \<Rightarrow> if ra \<noteq> [] then py_float e ra else None)
          else None)"

definition backoff :: "nat \<Rightarrow> real \<Rightarrow> real \<Rightarrow> real" where
  "backoff attempt backoff_factor max_backoff =
     min max_backoff (backoff_factor * 2 ^ (attempt - 1))"

definition retry_delay :: "env \<Rightarrow> response option \<Rightarrow> nat \<Rightarrow> real \<Rightarrow> real \<Rightarrow> real" where
  "retry_delay e resp attempt backoff_factor max_backoff =
     (case retry_after e resp of
        Some d \<Rightarrow> d
      | None \<Rightarrow> backoff attempt backoff_factor max_backoff)"

definition jitter :: "env \<Rightarrow> sys \<Rightarrow> real" where
  "jitter e s = 0.5 + 0.5 * py_random e (draws s)"

definition sleep_for_retry ::
  "env \<Rightarrow> response option \<Rightarrow> nat \<Rightarrow> real \<Rightarrow> real \<Rightarrow> sys \<Rightarrow> (exn + unit) \<times> sys" where
  "sleep_for_retry e resp attempt backoff_factor max_backoff s =
     time_sleep e (retry_delay e resp attempt backoff_factor max_backoff * jitter e s)
       (s\<lparr>draws := Suc (draws s)\<rparr>)"

text \<open>The test of line 70: \<open>code == 429 or (code and 500 <= code < 600)\<close>.\<close>

definition retryable :: "int \<Rightarrow> bool" where
  "retryable code = (code = 429 \<or> (500 \<le> code \<and> code < 600))"

text \<open>
  \<open>_request_with_retries\<close>: the body of the loop for one attempt, then the loop. A raise of
  \<open>prepare_request\<close> is not caught. \<open>Continue\<close> carries the response just received, the
  value of the variable \<open>resp\<close> when the next pass starts.
\<close>

definition request_attempt ::
  "env \<Rightarrow> string \<Rightarrow> (string \<rightharpoonup> string) \<Rightarrow> nat \<Rightarrow> real \<Rightarrow> real \<Rightarrow> nat \<Rightarrow> sys
     \<Rightarrow> (response option, response option) step \<times> sys" where
  "request_attempt e u hdrs max_retries backoff_factor max_backoff attempt s =
     (let s1 = s\<lparr>reqs := Suc (reqs s)\<rparr> in
      case prepare_request e (reqs s) u hdrs of
        Inl x \<Rightarrow> (Raise x, s1)
      | Inr resp \<Rightarrow>
          (case resp of
             None \<Rightarrow> (Return resp, s1)
           | Some r \<Rightarrow>
               if status_code r = 200 \<or> status_code r = 202 then (Return resp, s1)
               else if retryable (status_code r) \<and> attempt < max_retries then
                 (case sleep_for_retry e resp attempt backoff_factor max_backoff s1 of
                    (Inl x, s2) \<Rightarrow> (Raise x, s2)
                  | (Inr _, s2) \<Rightarrow> (Continue resp, s2))
               else (Return resp, s1)))"

function request_loop ::
  "env \<Rightarrow> string \<Rightarrow> (string \<rightharpoonup> string) \<Rightarrow> nat \<Rightarrow> real \<Rightarrow> real \<Rightarrow> nat \<Rightarrow> response option
     \<Rightarrow> sys \<Rightarrow> (exn + response option) \<times> sys" where
  "request_loop e u hdrs max_retries backoff_factor max_backoff attempt resp s =
     (if max_retries < attempt then (Inr resp, s)
      else
        (case request_attempt e u hdrs max_retries backoff_factor max_backoff attempt s of
           (Return r, s') \<Rightarrow> (Inr r, s')
         | (Raise x, s') \<Rightarrow> (Inl x, s')
         | (Continue r, s') \<Rightarrow>
             request_loop e u hdrs max_retries backoff_factor max_backoff (Suc attempt) r s'))"
  by pat_completeness auto
termination
  by (relation "measure (\<lambda>(e, u, hdrs, max_retries, bf, mb, attempt, resp, s).
        Suc max_retries - attempt)") auto

definition request_with_retries ::
  "env \<Rightarrow> string \<Rightarrow> (string \<rightharpoonup> string) \<Rightarrow> nat \<Rightarrow> real \<Rightarrow> real \<Rightarrow> sys
     \<Rightarrow> (exn + response option) \<times> sys" where
  "request_with_retries e u hdrs max_retries backoff_factor max_backoff s =
     request_loop e u hdrs max_retries backoff_factor max_backoff 1 None s"

text \<open>
  \<open>_parse_expected_size\<close>: the first value of the \<open>size\<close> query parameter when \<open>int()\<close>
  accepts it; else, when a response is given, its \<open>Content-Length\<close> when non-empty and
  accepted by \<open>int()\<close>; else \<open>None\<close>.
\<close>

definition size_param :: "env \<Rightarrow> url \<Rightarrow> int option" where
  "size_param e u =
     (case url_query u ''size'' of
        None \<Rightarrow> None
      | Some [] \<Rightarrow> None
      | Some (v # vs) \<Rightarrow> py_int e v)"

definition parse_expected_size :: "env \<Rightarrow> url \<Rightarrow> response option \<Rightarrow> int option" where
  "parse_expected_size e u resp =
     (case size_param e u of
        Some n \<Rightarrow> Some n
      | None \<Rightarrow>
          (case resp of
             None \<Rightarrow> None
           | Some r \<Rightarrow>
               (case headers r ''Content-Length'' of
                  None \<Rightarrow> None
                | Some cl \<Rightarrow> if cl \<noteq> [] then py_int e cl else None)))"

section \<open>items.py: the status poller\<close>

text \<open>
  \<open>get_item\<close> returns the parsed JSON body, or Python's \<open>None\<close>, written \<open>JNull\<close>
  (a body that is the JSON value \<open>null\<close> parses to \<open>None\<close> as well). It raises only
  where the token or the request raises.
\<close>

definition item_url :: "string \<Rightarrow> string \<Rightarrow> string \<Rightarrow> string \<Rightarrow> string" where
  "item_url domain catalog collection item_uuid =
     domain @ ''/dds/v1/item/'' @ catalog @ ''/'' @ collection @ ''/'' @ item_uuid"

definition get_item ::
  "env \<Rightarrow> string \<Rightarrow> string \<Rightarrow> string \<Rightarrow> string \<Rightarrow> sys \<Rightarrow> (exn + json) \<times> sys" where
  "get_item e domain collection item_uuid catalog s =
     (case get_access_token e (reqs s) of
        Inl x \<Rightarrow> (Inl x, s)
      | Inr access_token \<Rightarrow>
          (case request_with_retries e (item_url domain catalog collection item_uuid)
                  [''Authorization'' \<mapsto> ''Bearer '' @ access_token] 5 1 30 s of
             (Inl x, s') \<Rightarrow> (Inl x, s')
           | (Inr None, s') \<Rightarrow> (Inr JNull, s')
           | (Inr (Some resp), s') \<Rightarrow>
               if status_code resp = 200 \<or> status_code resp = 202 then
                 (case json_body resp of
                    Some j \<Rightarrow> (Inr j, s'\<lparr>img_info := j\<rparr>)
                  | None \<Rightarrow> (Inr JNull, s'))
               else (Inr JNull, s')))"

record buckets =
  ready :: "json list"
  queued :: "json list"
  unknown :: "json list"

definition no_buckets :: buckets where
  "no_buckets = \<lparr>ready = [], queued = [], unknown = []\<rparr>"

text \<open>
  Lines 113 to 119 (and 176 to 182): \<open>data.get("status")\<close> exists on a dict only; on any
  other value Python raises \<open>AttributeError\<close>. A dict without the key gives \<open>None\<close>, which
  is neither of the two strings.
\<close>

definition bucket_of :: "json \<Rightarrow> buckets \<Rightarrow> exn + buckets" where
  "bucket_of data b =
     (case data of
        JObj kvs \<Rightarrow>
          (let st = map_of kvs ''status'' in
           if st = Some (JStr ''Available'') then Inr (b\<lparr>ready := ready b @ [data]\<rparr>)
           else if st = Some (JStr ''Queued'') then Inr (b\<lparr>queued := queued b @ [data]\<rparr>)
           else Inr (b\<lparr>unknown := unknown b @ [data]\<rparr>))
      | _ \<Rightarrow> Inl AttributeError)"

text \<open>
  \<open>get_items\<close>: the loop over the entries. The \<open>try ... finally\<close> of the source has no
  \<open>except\<close>: a \<open>KeyError\<close> of \<open>e["collectionId"]\<close>, a raise of \<open>get_item\<close> and the
  \<open>AttributeError\<close> above leave the function. The throttle and the ETA read the clock and
  feed the progress bar only; they are left out.
\<close>

fun get_items_loop ::
  "env \<Rightarrow> string \<Rightarrow> string \<Rightarrow> (string \<rightharpoonup> string) list \<Rightarrow> buckets \<Rightarrow> sys
     \<Rightarrow> (exn + buckets) \<times> sys" where
  "get_items_loop e domain catalog [] b s = (Inr b, s)"
| "get_items_loop e domain catalog (x # xs) b s =
     (case x ''collectionId'' of
        None \<Rightarrow> (Inl (KeyError ''collectionId''), s)
      | Some c \<Rightarrow>
          (case x ''archiveId'' of
             None \<Rightarrow> (Inl (KeyError ''archiveId''), s)
           | Some a \<Rightarrow>
               (case get_item e domain c a catalog s of
                  (Inl ex, s') \<Rightarrow> (Inl ex, s')
                | (Inr data, s') \<Rightarrow>
                    if data \<noteq> JNull then
                      (case bucket_of data b of
                         Inl ex \<Rightarrow> (Inl ex, s')
                       | Inr b' \<Rightarrow> get_items_loop e domain catalog xs b' s')
                    else get_items_loop e domain catalog xs b s')))"

definition get_items ::
  "env \<Rightarrow> string \<Rightarrow> (string \<rightharpoonup> string) list \<Rightarrow> string \<Rightarrow> sys \<Rightarrow> (exn + buckets) \<times> sys" where
  "get_items e domain entries catalog s = get_items_loop e domain catalog entries no_buckets s"

text \<open>A query-result object: its \<open>uuid\<close> and \<open>query_data\<close> attributes, both optional.\<close>

record query_result =
  uuid :: "string option"
  query_data :: "(string \<rightharpoonup> json) option"

text \<open>Python's truth value of a JSON-like value.\<close>

fun truthy :: "json \<Rightarrow> bool" where
  "truthy JNull = False"
| "truthy (JBool b) = b"
| "truthy (JNum n) = (n \<noteq> 0)"
| "truthy (JStr str) = (str \<noteq> [])"
| "truthy (JArr xs) = (xs \<noteq> [])"
| "truthy (JObj kvs) = (kvs \<noteq> [])"

text \<open>\<open>for k in (...): if qd.get(k): v = str(qd[k]); break\<close>\<close>

fun first_truthy :: "env \<Rightarrow> (string \<rightharpoonup> json) \<Rightarrow> string list \<Rightarrow> string option" where
  "first_truthy e qd [] = None"
| "first_truthy e qd (k # ks) =
     (case qd k of
        None \<Rightarrow> first_truthy e qd ks
      | Some v \<Rightarrow> if truthy v then Some (py_str e v) else first_truthy e qd ks)"

definition resolve_ids :: "env \<Rightarrow> query_result \<Rightarrow> (string \<times> string) option" where
  "resolve_ids e qr =
     (let qd = (case query_data qr of None \<Rightarrow> Map.empty | Some d \<Rightarrow> d);
          coll = first_truthy e qd [''collectionId'', ''collectionID'', ''collection'', ''collection_name''];
          arch0 = first_truthy e qd [''archiveId'', ''datasetId'', ''recordId'', ''featureId''];
          arch = (case arch0 of
                    Some a \<Rightarrow> Some a
                  | None \<Rightarrow> (case uuid qr of
                                None \<Rightarrow> None
                              | Some i \<Rightarrow> if i \<noteq> [] then Some i else None))
      in case (coll, arch) of
           (Some c, Some a) \<Rightarrow> if c \<noteq> [] \<and> a \<noteq> [] then Some (c, a) else None
         | _ \<Rightarrow> None)"

fun get_items_from_results_loop ::
  "env \<Rightarrow> string \<Rightarrow> string \<Rightarrow> query_result list \<Rightarrow> buckets \<Rightarrow> sys
     \<Rightarrow> (exn + buckets) \<times> sys" where
  "get_items_from_results_loop e domain catalog [] b s = (Inr b, s)"
| "get_items_from_results_loop e domain catalog (qr # qrs) b s =
     (case resolve_ids e qr of
        None \<Rightarrow> get_items_from_results_loop e domain catalog qrs b s
      | Some (collection_id, archive_id) \<Rightarrow>
          (case get_item e domain collection_id archive_id catalog s of
             (Inl ex, s') \<Rightarrow> (Inl ex, s')
           | (Inr data, s') \<Rightarrow>
               if data \<noteq> JNull then
                 (case bucket_of data b of
                    Inl ex \<Rightarrow> (Inl ex, s')
                  | Inr b' \<Rightarrow> get_items_from_results_loop e domain catalog qrs b' s')
               else get_items_from_results_loop e domain catalog qrs b s'))"

definition get_items_from_results ::
  "env \<Rightarrow> string \<Rightarrow> query_result list \<Rightarrow> string \<Rightarrow> sys \<Rightarrow> (exn + buckets) \<times> sys" where
  "get_items_from_results e domain results catalog s =
     get_items_from_results_loop e domain catalog results no_buckets s"

section \<open>downloads.py: the resumable downloader\<close>

text \<open>\<open>os.path.join\<close>, \<open>os.path.basename\<close> and \<open>os.path.splitext(...)[0]\<close> on POSIX.\<close>

definition os_path_join :: "string \<Rightarrow> string \<Rightarrow> string" where
  "os_path_join a b =
     (if b \<noteq> [] \<and> hd b = CHR ''/'' then b
      else if a = [] \<or> last a = CHR ''/'' then a @ b
      else a @ ''/'' @ b)"

definition os_path_basename :: "string \<Rightarrow> string" where
  "os_path_basename p = rev (takeWhile (\<lambda>c. c \<noteq> CHR ''/'') (rev p))"

definition splitext_root :: "string \<Rightarrow> string" where
  "splitext_root n =
     (if CHR ''.'' \<in> set n then
        (let root = rev (tl (dropWhile (\<lambda>c. c \<noteq> CHR ''.'') (rev n))) in
         if list_ex (\<lambda>c. c \<noteq> CHR ''.'') root then root else n)
      else n)"

text \<open>\<open>str.lower\<close> on ASCII, and \<open>str.endswith\<close>.\<close>

definition lower_char :: "char \<Rightarrow> char" where
  "lower_char c =
     (let n = (of_char c :: nat) in if 65 \<le> n \<and> n \<le> 90 then char_of (n + 32) else c)"

definition lower :: "string \<Rightarrow> string" where
  "lower str = map lower_char str"

definition endswith :: "string \<Rightarrow> string \<Rightarrow> bool" where
  "endswith str suf = (length suf \<le> length str \<and> drop (length str - length suf) str = suf)"

text \<open>\<open>os.replace\<close>: raises when the source is missing.\<close>

definition os_replace :: "string \<Rightarrow> string \<Rightarrow> sys \<Rightarrow> (exn + unit) \<times> sys" where
  "os_replace src dst s =
     (case files s src of
        None \<Rightarrow> (Inl (FileNotFoundError src), s)
      | Some b \<Rightarrow>
          if src = dst then (Inr (), s)
          else (Inr (), s\<lparr>files := ((files s)(dst \<mapsto> b))(src := None)\<rparr>))"

text \<open>Lines 38 to 40, and again 75 to 77: the jittered exponential backoff of the downloader.\<close>

definition backoff_sleep :: "env \<Rightarrow> nat \<Rightarrow> real \<Rightarrow> real \<Rightarrow> sys \<Rightarrow> (exn + unit) \<times> sys" where
  "backoff_sleep e attempt backoff_factor max_backoff s =
     time_sleep e (backoff attempt backoff_factor max_backoff * jitter e s)
       (s\<lparr>draws := Suc (draws s)\<rparr>)"

text \<open>
  The \<open>except Exception\<close> clause, lines 66 to 77: remove the temporary file, re-raise on
  the last attempt, else sleep and go on. A raise of \<open>time.sleep\<close> inside the clause leaves
  the function.
\<close>

definition on_exception ::
  "env \<Rightarrow> string \<Rightarrow> nat \<Rightarrow> real \<Rightarrow> real \<Rightarrow> nat \<Rightarrow> exn \<Rightarrow> sys \<Rightarrow> (string, unit) step \<times> sys" where
  "on_exception e dest max_retries backoff_factor max_backoff attempt x s =
     (let s1 = s\<lparr>files := (files s)(dest @ ''.part'' := None)\<rparr> in
      if max_retries \<le> attempt then (Raise x, s1)
      else
        (case backoff_sleep e attempt backoff_factor max_backoff s1 of
           (Inl y, s2) \<Rightarrow> (Raise y, s2)
         | (Inr _, s2) \<Rightarrow> (Continue (), s2)))"

text \<open>
  The \<open>try\<close> block, lines 34 to 65, for one attempt. \<open>raise_for_status\<close> raises on a status
  from 400 to 599. \<open>open(tmp, "wb")\<close> truncates; the chunks are written in order (an empty
  chunk adds nothing). The size check reads the URL alone: it calls
  \<open>_parse_expected_size(url, None)\<close>.
\<close>

definition download_attempt ::
  "env \<Rightarrow> url \<Rightarrow> string \<Rightarrow> nat \<Rightarrow> real \<Rightarrow> real \<Rightarrow> nat \<Rightarrow> sys \<Rightarrow> (string, unit) step \<times> sys" where
  "download_attempt e u dest max_retries backoff_factor max_backoff attempt s =
     (let tmp = dest @ ''.part'';
          handler = on_exception e dest max_retries backoff_factor max_backoff attempt;
          s1 = s\<lparr>reqs := Suc (reqs s)\<rparr>
      in case requests_get e (reqs s) u of
           Inl x \<Rightarrow> handler x s1
         | Inr r \<Rightarrow>
             if retryable (status_code r) \<and> attempt < max_retries then
               (case backoff_sleep e attempt backoff_factor max_backoff s1 of
                  (Inl y, s2) \<Rightarrow> handler y s2
                | (Inr _, s2) \<Rightarrow> (Continue (), s2))
             else if 400 \<le> status_code r \<and> status_code r < 600 then
               handler (HTTPError (status_code r)) s1
             else
               (let body = concat (chunks r);
                    s2 = s1\<lparr>files := (files s1)(tmp \<mapsto> body)\<rparr>
                in if stream_fails r then handler StreamError s2
                   else
                     (case parse_expected_size e u None of
                        Some expected \<Rightarrow>
                          if int (length body) \<noteq> expected
                          then handler (SizeMismatch expected (int (length body))) s2
                          else (case os_replace tmp dest s2 of
                                  (Inl x, s3) \<Rightarrow> handler x s3
                                | (Inr _, s3) \<Rightarrow> (Return dest, s3))
                      | None \<Rightarrow>
                          (case os_replace tmp dest s2 of
                             (Inl x, s3) \<Rightarrow> handler x s3
                           | (Inr _, s3) \<Rightarrow> (Return dest, s3)))))"

function download_loop ::
  "env \<Rightarrow> url \<Rightarrow> string \<Rightarrow> nat \<Rightarrow> real \<Rightarrow> real \<Rightarrow> nat \<Rightarrow> sys \<Rightarrow> (exn + string) \<times> sys" where
  "download_loop e u dest max_retries backoff_factor max_backoff attempt s =
     (if max_retries < attempt then (Inr dest, s)
      else
        (case download_attempt e u dest max_retries backoff_factor max_backoff attempt s of
           (Return d, s') \<Rightarrow> (Inr d, s')
         | (Raise x, s') \<Rightarrow> (Inl x, s')
         | (Continue _, s') \<Rightarrow>
             download_loop e u dest max_retries backoff_factor max_backoff (Suc attempt) s'))"
  by pat_completeness auto
termination
  by (relation "measure (\<lambda>(e, u, dest, max_retries, bf, mb, attempt, s).
        Suc max_retries - attempt)") auto

definition download_with_retries ::
  "env \<Rightarrow> url \<Rightarrow> string \<Rightarrow> nat \<Rightarrow> real \<Rightarrow> real \<Rightarrow> sys \<Rightarrow> (exn + string) \<times> sys" where
  "download_with_retries e u dest max_retries backoff_factor max_backoff s =
     download_loop e u dest max_retries backoff_factor max_backoff 1 s"

text \<open>
  \<open>_maybe_unzip\<close>. A directory is a map from member names to contents;
  \<open>zip_extractall env bytes\<close> is the members of the archive, \<open>None\<close> where \<open>zipfile\<close>
  raises. \<open>os.makedirs(..., exist_ok=True)\<close> raises when the path is a file.
\<close>

definition is_zip :: "string \<Rightarrow> bool" where
  "is_zip file_path = endswith (lower file_path) ''.zip''"

definition maybe_unzip ::
  "env \<Rightarrow> string \<Rightarrow> string \<Rightarrow> bool \<Rightarrow> sys \<Rightarrow> (exn + string option) \<times> sys" where
  "maybe_unzip e file_path out_dir keep_zip s =
     (if \<not> is_zip file_path then (Inr None, s)
      else
        (let extract_dir = os_path_join out_dir (splitext_root (os_path_basename file_path)) in
         if files s extract_dir \<noteq> None then (Inl (FileExistsError extract_dir), s)
         else
           (let old = (case dirs s extract_dir of None \<Rightarrow> Map.empty | Some d \<Rightarrow> d);
                s1 = s\<lparr>dirs := (dirs s)(extract_dir \<mapsto> old)\<rparr>
            in case files s1 file_path of
                 None \<Rightarrow> (Inl (FileNotFoundError file_path), s1)
               | Some zf \<Rightarrow>
                   (case zip_extractall e zf of
                      None \<Rightarrow> (Inl BadZipFile, s1)
                    | Some members \<Rightarrow>
                        (let s2 = s1\<lparr>dirs := (dirs s1)(extract_dir \<mapsto> old ++ members)\<rparr>;
                             s3 = (if keep_zip then s2
                                   else s2\<lparr>files := (files s2)(file_path := None)\<rparr>)
                         in (Inr (Some extract_dir), s3))))))"

text \<open>
  \<open>download_items\<close>, the worker \<open>job\<close> of one task (lines 129 to 173). \<open>_expected_size\<close> is
  \<open>size_param\<close>: the \<open>size\<close> query parameter only. An exception inside the skip test is
  swallowed, and the download goes on. \<open>fetch_and_finish\<close> is the second \<open>try\<close> block of
  \<open>job\<close> (lines 164 to 173): download into the in-progress directory with the default
  retry parameters, move to the completed directory, extract. The pool runs one \<open>job\<close>
  per task; its scheduling is left out.
\<close>

record download_result =
  r_archiveId :: string
  r_dest :: string
  r_extracted_dir :: "string option"

definition task_filename :: "url \<Rightarrow> string" where
  "task_filename u =
     (let b = os_path_basename (url_path u) in if b = [] then ''download.bin'' else b)"

definition in_progress_path :: "string \<Rightarrow> url \<Rightarrow> string" where
  "in_progress_path out_dir u =
     os_path_join (os_path_join out_dir ''in_progress'') (task_filename u)"

definition completed_path :: "string \<Rightarrow> url \<Rightarrow> string" where
  "completed_path out_dir u =
     os_path_join (os_path_join out_dir ''completed'') (task_filename u)"

definition already_complete :: "env \<Rightarrow> url \<Rightarrow> string \<Rightarrow> sys \<Rightarrow> bool" where
  "already_complete e u fin_path s =
     (case size_param e u of
        None \<Rightarrow> False
      | Some expected \<Rightarrow>
          (case files s fin_path of
             None \<Rightarrow> False
           | Some b \<Rightarrow> int (length b) = expected))"

definition fetch_and_finish ::
  "env \<Rightarrow> url \<Rightarrow> string \<Rightarrow> string \<Rightarrow> bool \<Rightarrow> bool \<Rightarrow> sys
     \<Rightarrow> (exn + download_result) \<times> sys" where
  "fetch_and_finish e u aid out_dir unzip keep_zip s =
     (let tmp_path = in_progress_path out_dir u;
          fin_path = completed_path out_dir u;
          completed_dir = os_path_join out_dir ''completed''
      in case download_with_retries e u tmp_path 5 1 20 s of
           (Inl x, s1) \<Rightarrow> (Inl x, s1)
         | (Inr final_tmp, s1) \<Rightarrow>
             (case os_replace final_tmp fin_path s1 of
                (Inl x, s2) \<Rightarrow> (Inl x, s2)
              | (Inr _, s2) \<Rightarrow>
                  if unzip \<and> is_zip fin_path then
                    (case maybe_unzip e fin_path completed_dir keep_zip s2 of
                       (Inl x, s3) \<Rightarrow> (Inl x, s3)
                     | (Inr ex, s3) \<Rightarrow>
                         (Inr \<lparr>r_archiveId = aid, r_dest = fin_path, r_extracted_dir = ex\<rparr>, s3))
                  else
                    (Inr \<lparr>r_archiveId = aid, r_dest = fin_path, r_extracted_dir = None\<rparr>, s2)))"

definition job ::
  "env \<Rightarrow> url \<Rightarrow> string \<Rightarrow> string \<Rightarrow> bool \<Rightarrow> bool \<Rightarrow> sys
     \<Rightarrow> (exn + download_result) \<times> sys" where
  "job e u aid out_dir unzip keep_zip s =
     (let fin_path = completed_path out_dir u;
          completed_dir = os_path_join out_dir ''completed''
      in if already_complete e u fin_path s then
           (if unzip \<and> is_zip fin_path then
              (case maybe_unzip e fin_path completed_dir keep_zip s of
                 (Inr ex, s') \<Rightarrow>
                   (Inr \<lparr>r_archiveId = aid, r_dest = fin_path, r_extracted_dir = ex\<rparr>, s')
               | (Inl _, s') \<Rightarrow> fetch_and_finish e u aid out_dir unzip keep_zip s')
            else (Inr \<lparr>r_archiveId = aid, r_dest = fin_path, r_extracted_dir = None\<rparr>, s))
         else fetch_and_finish e u aid out_dir unzip keep_zip s)"

section \<open>rcm_db.py: the persistence shadow\<close>

text \<open>
  What SQLite finds at a path: something it cannot read as a database, or a database with
  its tables' columns and the rows of \<open>downloads\<close>. \<open>product_id_unique\<close> says that the
  table declares \<open>product_id\<close> unique, which the clause \<open>ON CONFLICT(product_id)\<close> needs:
  without it SQLite rejects the statement.
\<close>

datatype sqlval = Null | Text string | Real real | Integer int

record row =
  product_id :: string
  query_id :: sqlval
  constellation :: sqlval
  sensor_mode :: sqlval
  product_type :: sqlval
  processing_level :: sqlval
  status :: sqlval
  acqusition_time :: sqlval
  publication_time :: sqlval
  latency :: sqlval
  coordinates :: sqlval
  latitude :: sqlval
  longitude :: sqlval
  name :: sqlval
  quicklook :: sqlval
  file_path :: sqlval
  file_size_mb :: sqlval
  checksum :: sqlval
  created_at :: sqlval
  updated_at :: sqlval

record database =
  tables :: "string \<rightharpoonup> string list"
  product_id_unique :: bool
  downloads :: "row list"

datatype sqlite_file = NotADatabase | Database database

record rcmdb =
  enabled :: bool
  conn :: "database option"

definition EXPECTED_QUERY_COLS :: "string list" where
  "EXPECTED_QUERY_COLS =
     [''id'', ''constellation'', ''geometry_wkt'', ''start_date'', ''end_date'', ''parameters'',
      ''created_at'']"

definition EXPECTED_DL_COLS :: "string list" where
  "EXPECTED_DL_COLS =
     [''product_id'', ''query_id'', ''constellation'', ''sensor_mode'', ''product_type'',
      ''processing_level'', ''status'', ''acqusition_time'', ''publication_time'', ''latency'',
      ''coordinates'', ''latitude'', ''longitude'', ''name'', ''quicklook'', ''file_path'',
      ''file_size_mb'', ''checksum'', ''created_at'', ''updated_at'']"

text \<open>\<open>PRAGMA table_info\<close> of a table that does not exist has no rows.\<close>

definition table_columns :: "database \<Rightarrow> string \<Rightarrow> string list" where
  "table_columns d table = (case tables d table of None \<Rightarrow> [] | Some cols \<Rightarrow> cols)"

definition subset_present :: "database \<Rightarrow> string \<Rightarrow> string list \<Rightarrow> bool" where
  "subset_present d table need = (set need \<subseteq> set (table_columns d table))"

definition disabled :: rcmdb where
  "disabled = \<lparr>enabled = False, conn = None\<rparr>"

text \<open>
  \<open>OptionalRCMDB.__init__\<close>: \<open>disk\<close> is what lies at each path. A file that SQLite
  cannot open or read makes the \<open>PRAGMA\<close> raise, and the handle stays disabled.
  (\<open>record_query\<close> writes to the table \<open>queries\<close> only and is left out.)
\<close>

definition rcmdb_init :: "(string \<rightharpoonup> sqlite_file) \<Rightarrow> string option \<Rightarrow> rcmdb" where
  "rcmdb_init disk db_path =
     (case db_path of
        None \<Rightarrow> disabled
      | Some p \<Rightarrow>
          if p = [] then disabled
          else
            (case disk p of
               None \<Rightarrow> disabled
             | Some NotADatabase \<Rightarrow> disabled
             | Some (Database d) \<Rightarrow>
                 if \<not> subset_present d ''queries'' EXPECTED_QUERY_COLS then disabled
                 else if \<not> subset_present d ''downloads'' EXPECTED_DL_COLS then disabled
                 else \<lparr>enabled = True, conn = Some d\<rparr>))"

text \<open>
  The values of a \<open>meta\<close> dict: JSON-like values (\<open>JNull\<close> is \<open>None\<close>) and datetimes, a
  datetime being its POSIX time in seconds and whether it carries a time zone (subtracting
  an aware from a naive one raises \<open>TypeError\<close>).
\<close>

record datetime =
  stamp :: real
  aware :: bool

datatype pyval = PJ json | PDatetime datetime

text \<open>
  The library routines of this module: \<open>datetime.isoformat\<close>, \<open>json.dumps\<close> (\<open>None\<close> where
  it raises), the binding of a Python value to an SQL parameter (\<open>None\<close> where \<open>sqlite3\<close>
  refuses the type), \<open>hashlib.md5(...).hexdigest()\<close> and \<open>str(Path(...))\<close>.
\<close>

record dblib =
  isoformat :: "datetime \<Rightarrow> string"
  json_dumps :: "pyval \<Rightarrow> string option"
  sqlite_bind :: "pyval \<Rightarrow> sqlval option"
  md5_hex :: "string \<Rightarrow> string"
  path_str :: "string \<Rightarrow> string"

definition meta_get :: "(string \<rightharpoonup> pyval) \<Rightarrow> string \<Rightarrow> pyval" where
  "meta_get meta k = (case meta k of None \<Rightarrow> PJ JNull | Some v \<Rightarrow> v)"

definition meta_get_default :: "(string \<rightharpoonup> pyval) \<Rightarrow> string \<Rightarrow> pyval \<Rightarrow> pyval" where
  "meta_get_default meta k dflt = (case meta k of None \<Rightarrow> dflt | Some v \<Rightarrow> v)"

definition to_iso :: "dblib \<Rightarrow> pyval \<Rightarrow> sqlval" where
  "to_iso lib x =
     (case x of
        PJ (JStr str) \<Rightarrow> Text str
      | PDatetime d \<Rightarrow> Text (isoformat lib d)
      | _ \<Rightarrow> Null)"

definition json_dumps_safe :: "dblib \<Rightarrow> pyval \<Rightarrow> string" where
  "json_dumps_safe lib obj = (case json_dumps lib obj of Some str \<Rightarrow> str | None \<Rightarrow> ''{}'')"

definition bind_query_id :: "int option \<Rightarrow> sqlval" where
  "bind_query_id q = (case q of None \<Rightarrow> Null | Some i \<Rightarrow> Integer i)"

text \<open>
  The eight parameters taken from \<open>meta\<close> as they are: \<open>None\<close> when one of them cannot be
  bound, in which case \<open>execute\<close> raises and the method logs and returns.
\<close>

record bound_meta =
  b_constellation :: sqlval
  b_sensor_mode :: sqlval
  b_product_type :: sqlval
  b_processing_level :: sqlval
  b_latitude :: sqlval
  b_longitude :: sqlval
  b_name :: sqlval
  b_quicklook :: sqlval

definition bind_meta :: "dblib \<Rightarrow> (string \<rightharpoonup> pyval) \<Rightarrow> bound_meta option" where
  "bind_meta lib meta =
     (case those
        [sqlite_bind lib (meta_get_default meta ''constellation'' (PJ (JStr ''RCM''))),
         sqlite_bind lib (meta_get meta ''sensor_mode''),
         sqlite_bind lib (meta_get meta ''product_type''),
         sqlite_bind lib (meta_get meta ''processing_level''),
         sqlite_bind lib (meta_get meta ''latitude''),
         sqlite_bind lib (meta_get meta ''longitude''),
         sqlite_bind lib (meta_get meta ''name''),
         sqlite_bind lib (meta_get meta ''quicklook'')] of
        Some [c, sm, pt, pl, la, lo, nm, ql] \<Rightarrow>
          Some \<lparr>b_constellation = c, b_sensor_mode = sm, b_product_type = pt,
                b_processing_level = pl, b_latitude = la, b_longitude = lo, b_name = nm,
                b_quicklook = ql\<rparr>
      | _ \<Rightarrow> None)"

text \<open>
  The row of the \<open>VALUES\<close> clause, shared by the three statements: they differ in the
  status, the times, the latency, the path, the size and the checksum.
\<close>

definition values_row ::
  "string \<Rightarrow> int option \<Rightarrow> bound_meta \<Rightarrow> string \<Rightarrow> sqlval \<Rightarrow> sqlval \<Rightarrow> sqlval \<Rightarrow> string
     \<Rightarrow> string \<Rightarrow> sqlval \<Rightarrow> sqlval \<Rightarrow> string \<Rightarrow> row" where
  "values_row pid qid bound st acq pub lat coords path size_mb cks now =
     \<lparr>product_id = pid,
      query_id = bind_query_id qid,
      constellation = b_constellation bound,
      sensor_mode = b_sensor_mode bound,
      product_type = b_product_type bound,
      processing_level = b_processing_level bound,
      status = Text st,
      acqusition_time = acq,
      publication_time = pub,
      latency = lat,
      coordinates = Text coords,
      latitude = b_latitude bound,
      longitude = b_longitude bound,
      name = b_name bound,
      quicklook = b_quicklook bound,
      file_path = Text path,
      file_size_mb = size_mb,
      checksum = cks,
      created_at = Text now,
      updated_at = Text now\<rparr>"

text \<open>
  \<open>INSERT ... ON CONFLICT(product_id) DO UPDATE SET ...\<close>: a row with the same
  \<open>product_id\<close> is updated by the \<open>SET\<close> clause (\<open>excluded\<close> is the row of the \<open>VALUES\<close>
  clause), otherwise the new row is added.
\<close>

definition upsert :: "row \<Rightarrow> (row \<Rightarrow> row \<Rightarrow> row) \<Rightarrow> row list \<Rightarrow> row list" where
  "upsert excluded do_update rows =
     (if product_id excluded \<in> set (map product_id rows)
      then map (\<lambda>r. if product_id r = product_id excluded then do_update r excluded else r) rows
      else rows @ [excluded])"

definition execute_upsert :: "rcmdb \<Rightarrow> row \<Rightarrow> (row \<Rightarrow> row \<Rightarrow> row) \<Rightarrow> rcmdb" where
  "execute_upsert h excluded do_update =
     (case conn h of
        None \<Rightarrow> h
      | Some d \<Rightarrow>
          if product_id_unique d
          then h\<lparr>conn := Some (d\<lparr>downloads := upsert excluded do_update (downloads d)\<rparr>)\<rparr>
          else h)"

definition set_in_progress :: "string \<Rightarrow> row \<Rightarrow> row \<Rightarrow> row" where
  "set_in_progress now r excluded =
     r\<lparr>status := status excluded, file_path := file_path excluded, updated_at := Text now\<rparr>"

definition mark_in_progress ::
  "dblib \<Rightarrow> string \<Rightarrow> rcmdb \<Rightarrow> string \<Rightarrow> int option \<Rightarrow> (string \<rightharpoonup> pyval) \<Rightarrow> string \<Rightarrow> rcmdb" where
  "mark_in_progress lib now h pid qid meta path =
     (if \<not> enabled h then h
      else
        (case bind_meta lib meta of
           None \<Rightarrow> h
         | Some bound \<Rightarrow>
             execute_upsert h
               (values_row pid qid bound ''in_progress''
                  (to_iso lib (meta_get meta ''acquisition_time''))
                  (to_iso lib (meta_get meta ''publication_time''))
                  Null
                  (json_dumps_safe lib (meta_get meta ''coordinates''))
                  path Null Null now)
               (set_in_progress now)))"

text \<open>Lines 143 to 153 of \<open>mark_success\<close>: the latency in minutes, when both times are datetimes.\<close>

definition latency_minutes :: "pyval \<Rightarrow> pyval \<Rightarrow> sqlval" where
  "latency_minutes acq pub =
     (case (acq, pub) of
        (PDatetime a, PDatetime p) \<Rightarrow>
          if aware a = aware p then Real ((stamp p - stamp a) / 60) else Null
      | _ \<Rightarrow> Null)"

definition set_completed :: "string \<Rightarrow> row \<Rightarrow> row \<Rightarrow> row" where
  "set_completed now r excluded =
     r\<lparr>status := Text ''completed'', file_path := file_path excluded,
       file_size_mb := file_size_mb excluded, checksum := checksum excluded,
       publication_time := publication_time excluded,
       acqusition_time := acqusition_time excluded, latency := latency excluded,
       updated_at := Text now\<rparr>"

definition mark_success ::
  "dblib \<Rightarrow> string \<Rightarrow> (string \<rightharpoonup> string) \<Rightarrow> rcmdb \<Rightarrow> string \<Rightarrow> int option \<Rightarrow> string
     \<Rightarrow> (string \<rightharpoonup> pyval) \<Rightarrow> rcmdb" where
  "mark_success lib now fs h pid qid final_path meta =
     (if \<not> enabled h then h
      else
        (let size_mb = (case fs final_path of
                          None \<Rightarrow> Null
                        | Some b \<Rightarrow> Real (real (length b) / (1024 * 1024)));
             cks = (case fs final_path of None \<Rightarrow> Null | Some b \<Rightarrow> Text (md5_hex lib b));
             acq = meta_get meta ''acquisition_time'';
             pub = meta_get meta ''publication_time''
         in case bind_meta lib meta of
              None \<Rightarrow> h
            | Some bound \<Rightarrow>
                execute_upsert h
                  (values_row pid qid bound ''completed'' (to_iso lib acq) (to_iso lib pub)
                     (latency_minutes acq pub)
                     (json_dumps_safe lib (meta_get meta ''coordinates''))
                     (path_str lib final_path) size_mb cks now)
                  (set_completed now)))"

definition set_failed :: "string \<Rightarrow> row \<Rightarrow> row \<Rightarrow> row" where
  "set_failed now r excluded =
     r\<lparr>status := Text ''failed'', file_path := file_path excluded, updated_at := Text now\<rparr>"

definition mark_failed ::
  "dblib \<Rightarrow> string \<Rightarrow> rcmdb \<Rightarrow> string \<Rightarrow> int option \<Rightarrow> string \<Rightarrow> (string \<rightharpoonup> pyval) \<Rightarrow> rcmdb" where
  "mark_failed lib now h pid qid final_path meta =
     (if \<not> enabled h then h
      else
        (case bind_meta lib meta of
           None \<Rightarrow> h
         | Some bound \<Rightarrow>
             execute_upsert h
               (values_row pid qid bound ''failed''
                  (to_iso lib (meta_get meta ''acquisition_time''))
                  (to_iso lib (meta_get meta ''publication_time''))
                  Null
                  (json_dumps_safe lib (meta_get meta ''coordinates''))
                  final_path Null Null now)
               (set_failed now)))"

text \<open>A sequence of mark operations, each with the time of its \<open>datetime('now')\<close>.\<close>

datatype mark_op =
    MarkInProgress string string "int option" "string \<rightharpoonup> pyval" string
  | MarkSuccess string string "int option" string "string \<rightharpoonup> pyval"
  | MarkFailed string string "int option" string "string \<rightharpoonup> pyval"

fun apply_mark :: "dblib \<Rightarrow> (string \<rightharpoonup> string) \<Rightarrow> rcmdb \<Rightarrow> mark_op \<Rightarrow> rcmdb" where
  "apply_mark lib fs h (MarkInProgress now pid qid meta path) =
     mark_in_progress lib now h pid qid meta path"
| "apply_mark lib fs h (MarkSuccess now pid qid final_path meta) =
     mark_success lib now fs h pid qid final_path meta"
| "apply_mark lib fs h (MarkFailed now pid qid final_path meta) =
     mark_failed lib now h pid qid final_path meta"

definition rows_of :: "rcmdb \<Rightarrow> row list" where
  "rows_of h = (case conn h of None \<Rightarrow> [] | Some d \<Rightarrow> downloads d)"

definition rows_for :: "rcmdb \<Rightarrow> string \<Rightarrow> row list" where
  "rows_for h pid = filter (\<lambda>r. product_id r = pid) (rows_of h)"

section \<open>Assumptions on the environment and words of the specification\<close>

text \<open>
  \<open>random.random()\<close> lies in \<open>[0, 1)\<close>. A \<open>Retry-After\<close> in seconds is sane when it is
  neither negative (RFC 9110 has it as a string of digits) nor beyond the limit of
  \<open>time.sleep\<close>; the code does not check either. Where one of the two fails, \<open>time.sleep\<close>
  can refuse the product handed to it and raise.
\<close>

definition sane_random :: "env \<Rightarrow> bool" where
  "sane_random e = (\<forall>k. 0 \<le> py_random e k \<and> py_random e k < 1)"

definition sane_retry_after :: "env \<Rightarrow> string \<Rightarrow> (string \<rightharpoonup> string) \<Rightarrow> bool" where
  "sane_retry_after e u hdrs =
     (\<forall>k r ra v. prepare_request e k u hdrs = Inr (Some r) \<longrightarrow> headers r ''Retry-After'' = Some ra
        \<longrightarrow> py_float e ra = Some v \<longrightarrow> 0 \<le> v \<and> v \<le> sleep_limit e)"

text \<open>
  A response whose body arrived whole: the status is accepted, the stream ended without
  an exception, and the size named by the URL, if any, is the size of the body.
\<close>

definition complete_download :: "env \<Rightarrow> url \<Rightarrow> response \<Rightarrow> bool" where
  "complete_download e u r =
     (\<not> stream_fails r \<and> \<not> (400 \<le> status_code r \<and> status_code r < 600)
      \<and> (case size_param e u of
            None \<Rightarrow> True
          | Some n \<Rightarrow> int (length (concat (chunks r))) = n))"

text \<open>
  What each item of a poll came to, in the order of the input: the record that
  \<open>get_item\<close> returned, or \<open>JNull\<close> for an item that was dropped (its identifiers did not
  resolve, or its fetch failed). The lists stop where the poller raises. A poll is
  \<open>partitioned\<close> when each bucket holds, in order, the fetched records with its status,
  so that a fetched record is in one bucket and a dropped item in none.
\<close>

definition has_status :: "string \<Rightarrow> json \<Rightarrow> bool" where
  "has_status st d =
     (case d of JObj kvs \<Rightarrow> map_of kvs ''status'' = Some (JStr st) | _ \<Rightarrow> False)"

definition other_status :: "json \<Rightarrow> bool" where
  "other_status d = (d \<noteq> JNull \<and> \<not> has_status ''Available'' d \<and> \<not> has_status ''Queued'' d)"

fun get_items_outcomes ::
  "env \<Rightarrow> string \<Rightarrow> string \<Rightarrow> (string \<rightharpoonup> string) list \<Rightarrow> sys \<Rightarrow> json list" where
  "get_items_outcomes e domain catalog [] s = []"
| "get_items_outcomes e domain catalog (x # xs) s =
     (case x ''collectionId'' of
        None \<Rightarrow> []
      | Some c \<Rightarrow>
          (case x ''archiveId'' of
             None \<Rightarrow> []
           | Some a \<Rightarrow>
               (case get_item e domain c a catalog s of
                  (Inl ex, s') \<Rightarrow> []
                | (Inr data, s') \<Rightarrow> data # get_items_outcomes e domain catalog xs s')))"

fun get_items_from_results_outcomes ::
  "env \<Rightarrow> string \<Rightarrow> string \<Rightarrow> query_result list \<Rightarrow> sys \<Rightarrow> json list" where
  "get_items_from_results_outcomes e domain catalog [] s = []"
| "get_items_from_results_outcomes e domain catalog (qr # qrs) s =
     (case resolve_ids e qr of
        None \<Rightarrow> JNull # get_items_from_results_outcomes e domain catalog qrs s
      | Some (collection_id, archive_id) \<Rightarrow>
          (case get_item e domain collection_id archive_id catalog s of
             (Inl ex, s') \<Rightarrow> []
           | (Inr data, s') \<Rightarrow> data # get_items_from_results_outcomes e domain catalog qrs s'))"

definition partitioned :: "json list \<Rightarrow> nat \<Rightarrow> buckets \<Rightarrow> bool" where
  "partitioned ds n b =
     (length ds = n
      \<and> ready b = filter (has_status ''Available'') ds
      \<and> queued b = filter (has_status ''Queued'') ds
      \<and> unknown b = filter other_status ds
      \<and> length (ready b) + length (queued b) + length (unknown b)
          = length (filter (\<lambda>d. d \<noteq> JNull) ds)
      \<and> length (ready b) + length (queued b) + length (unknown b) \<le> n
      \<and> ((length (ready b) + length (queued b) + length (unknown b) = n) = (JNull \<notin> set ds)))"

text \<open>The invariant of the \<open>downloads\<close> table: no two rows share a \<open>product_id\<close>.\<close>

definition one_row_per_product :: "rcmdb \<Rightarrow> bool" where
  "one_row_per_product h = distinct (map product_id (rows_of h))"

section \<open>Concrete environments\<close>

text \<open>
  Small environments on which the definitions are run. \<open>dec_nat\<close> reads a string of ASCII
  digits, where \<open>int()\<close> and \<open>float()\<close> agree with it.
\<close>

definition digit :: "char \<Rightarrow> nat option" where
  "digit c = map_of (zip ''0123456789'' [0, 1, 2, 3, 4, 5, 6, 7, 8, 9]) c"

fun dec_digits :: "string \<Rightarrow> nat \<Rightarrow> nat option" where
  "dec_digits [] acc = Some acc"
| "dec_digits (c # cs) acc =
     (case digit c of None \<Rightarrow> None | Some d \<Rightarrow> dec_digits cs (10 * acc + d))"

definition dec_nat :: "string \<Rightarrow> nat option" where
  "dec_nat str = (if str = [] then None else dec_digits str 0)"

definition plain_response :: "int \<Rightarrow> response" where
  "plain_response code =
     \<lparr>status_code = code, headers = Map.empty, json_body = None, chunks = [],
      stream_fails = False\<rparr>"

definition quiet_sys :: sys where
  "quiet_sys =
     \<lparr>files = Map.empty, dirs = Map.empty, reqs = 0, draws = 0, slept = [], img_info = JNull\<rparr>"

text \<open>
  The catalog answers every request with the given response; the jitter draw is always
  \<open>0\<close>, so that a sleep lasts half the delay; \<open>time.sleep\<close> takes up to 9223372036
  seconds, the whole seconds of \<open>2^63\<close> nanoseconds.
\<close>

definition const_env :: "(nat \<Rightarrow> exn + response option) \<Rightarrow> (nat \<Rightarrow> exn + response) \<Rightarrow> env" where
  "const_env answers bodies =
     \<lparr>prepare_request = (\<lambda>n u hdrs. answers n),
      get_access_token = (\<lambda>n. Inr ''token''),
      requests_get = (\<lambda>n u. bodies n),
      py_random = (\<lambda>n. 0),
      sleep_limit = 9223372036,
      py_int = (\<lambda>str. map_option int (dec_nat str)),
      py_float = (\<lambda>str. map_option real (dec_nat str)),
      py_str = (\<lambda>j. case j of JStr str \<Rightarrow> str | _ \<Rightarrow> ''?''),
      zip_extractall = (\<lambda>b. if b = ''PK'' then Some [''a.txt'' \<mapsto> ''hello''] else None)\<rparr>"

text \<open>A 429 that asks for seven seconds, and a catalog that never answers.\<close>

definition retry_after_7 :: response where
  "retry_after_7 = (plain_response 429)\<lparr>headers := [''Retry-After'' \<mapsto> ''7'']\<rparr>"

definition silent_env :: env where
  "silent_env = const_env (\<lambda>n. Inr None) (\<lambda>n. Inl TransportError)"

text \<open>
  A catalog that answers every request by a 429 with \<open>Retry-After: -1\<close>; \<open>float("-1")\<close> is
  \<open>-1.0\<close>.
\<close>

definition retry_after_negative :: response where
  "retry_after_negative = (plain_response 429)\<lparr>headers := [''Retry-After'' \<mapsto> ''-1'']\<rparr>"

definition throttling_env :: env where
  "throttling_env =
     (const_env (\<lambda>n. Inr (Some retry_after_negative)) (\<lambda>n. Inl TransportError))
       \<lparr>py_float := (\<lambda>str. if str = ''-1'' then Some (- 1) else None)\<rparr>"

text \<open>
  Catalogs: one that cannot be reached, one that answers 503 four times and then 200, one
  that answers 404; and a download URL that names a size of five bytes.
\<close>

definition unreachable_env :: env where
  "unreachable_env = const_env (\<lambda>n. Inl TransportError) (\<lambda>n. Inl TransportError)"



definition not_found_env :: env where
  "not_found_env = const_env (\<lambda>n. Inr (Some (plain_response 404))) (\<lambda>n. Inl TransportError)"

definition test_url :: url where
  "test_url =
     \<lparr>url_text = ''https://x/test.zip?size=5'', url_path = ''/test.zip'',
      url_query = [''size'' \<mapsto> [''5'']]\<rparr>"

text \<open>
  A server that sends the same response to every download request; a URL without a
  \<open>size\<close> parameter; a response that announces ten bytes and delivers five.
\<close>


definition body_response :: "string list \<Rightarrow> response" where
  "body_response cs = (plain_response 200)\<lparr>chunks := cs\<rparr>"

definition serving_env :: "response \<Rightarrow> env" where
  "serving_env r = const_env (\<lambda>n. Inr None) (\<lambda>n. Inr r)"

definition plain_url :: url where
  "plain_url =
     \<lparr>url_text = ''https://x/data.bin'', url_path = ''/data.bin'', url_query = Map.empty\<rparr>"

definition short_response :: response where
  "short_response = (body_response [''hel'', ''lo''])\<lparr>headers := [''Content-Length'' \<mapsto> ''10'']\<rparr>"

text \<open>The directory part that \<open>os.path.join(out_dir, ...)\<close> puts before a relative name.\<close>

definition dir_prefix :: "string \<Rightarrow> string" where
  "dir_prefix out_dir =
     (if out_dir = [] \<or> last out_dir = CHR ''/'' then out_dir else out_dir @ ''/'')"

text \<open>
  A server whose first response breaks off after two bytes and whose later responses
  deliver the five bytes \<open>hello\<close>.
\<close>

definition interrupted_env :: env where
  "interrupted_env =
     const_env (\<lambda>n. Inr None)
       (\<lambda>n. if n = 0 then Inr ((body_response [''he''])\<lparr>stream_fails := True\<rparr>)
            else Inr (body_response [''hel'', ''lo'']))"

text \<open>
  The directory an archive is extracted into, and the members a directory holds (none
  when it does not exist).
\<close>

definition extract_dir_of :: "string \<Rightarrow> string \<Rightarrow> string" where
  "extract_dir_of out_dir zip_path =
     os_path_join out_dir (splitext_root (os_path_basename zip_path))"

definition dir_members :: "sys \<Rightarrow> string \<Rightarrow> (string \<rightharpoonup> string)" where
  "dir_members s d = (case dirs s d of None \<Rightarrow> Map.empty | Some m \<Rightarrow> m)"

text \<open>A URL of an archive of two bytes, and a disk that holds one file.\<close>

definition zip_url :: url where
  "zip_url =
     \<lparr>url_text = ''https://x/a.zip?size=2'', url_path = ''/a.zip'',
      url_query = [''size'' \<mapsto> [''2'']]\<rparr>"

definition with_file :: "string \<Rightarrow> string \<Rightarrow> sys" where
  "with_file p b = quiet_sys\<lparr>files := [p \<mapsto> b]\<rparr>"

text \<open>
  A catalog that answers Available, Queued, 404 and then Processing; entries of a poll;
  a query result without identifiers and one with a collection and a uuid.
\<close>

definition item_response :: "string \<Rightarrow> response" where
  "item_response st = (plain_response 200)\<lparr>json_body := Some (JObj [(''status'', JStr st)])\<rparr>"

definition catalog_env :: env where
  "catalog_env =
     const_env
       (\<lambda>n. if n = 0 then Inr (Some (item_response ''Available''))
            else if n = 1 then Inr (Some (item_response ''Queued''))
            else if n = 2 then Inr (Some (plain_response 404))
            else Inr (Some (item_response ''Processing'')))
       (\<lambda>n. Inl TransportError)"

definition entry :: "string \<Rightarrow> string \<Rightarrow> (string \<rightharpoonup> string)" where
  "entry c a = [''collectionId'' \<mapsto> c, ''archiveId'' \<mapsto> a]"

definition unresolved_result :: query_result where
  "unresolved_result = \<lparr>uuid = None, query_data = Some [''title'' \<mapsto> JStr ''scene'']\<rparr>"

definition resolved_result :: query_result where
  "resolved_result =
     \<lparr>uuid = Some ''u-1'', query_data = Some [''collection'' \<mapsto> JStr ''RCM'']\<rparr>"

text \<open>
  The columns of \<open>downloads\<close> as the external-interface section of the specification
  lists them, and a store with given columns for its two tables.
\<close>

definition SPEC_DL_COLS :: "string list" where
  "SPEC_DL_COLS =
     [''product_id'', ''query_id'', ''constellation'', ''sensor_mode'', ''product_type'',
      ''processing_level'', ''status'', ''acquisition_time'', ''publication_time'', ''latency'',
      ''coordinates'', ''latitude'', ''longitude'', ''name'', ''quicklook'', ''file_path'',
      ''file_size_mb'', ''checksum'', ''created_at'', ''updated_at'']"

definition store_with :: "string list \<Rightarrow> string list \<Rightarrow> database" where
  "store_with qcols dcols =
     \<lparr>tables = [''queries'' \<mapsto> qcols, ''downloads'' \<mapsto> dcols], product_id_unique = True,
      downloads = []\<rparr>"

text \<open>
  Library routines for the shadow, a row written earlier for the product \<open>P1\<close>, and an
  open store with given rows.
\<close>

definition plain_lib :: dblib where
  "plain_lib =
     \<lparr>isoformat = (\<lambda>d. ''2024-05-01T10:00:00''),
      json_dumps = (\<lambda>v. case v of PJ JNull \<Rightarrow> Some ''null'' | _ \<Rightarrow> None),
      sqlite_bind = (\<lambda>v. case v of
                          PJ JNull \<Rightarrow> Some Null
                        | PJ (JStr str) \<Rightarrow> Some (Text str)
                        | PJ (JNum n) \<Rightarrow> Some (Real n)
                        | _ \<Rightarrow> None),
      md5_hex = (\<lambda>b. ''0cc175b9''),
      path_str = (\<lambda>p. p)\<rparr>"

definition old_row :: row where
  "old_row =
     values_row ''P1'' (Some 7)
       \<lparr>b_constellation = Text ''RCM'', b_sensor_mode = Text ''SC30'', b_product_type = Text ''GRD'',
        b_processing_level = Text ''L1'', b_latitude = Real 60, b_longitude = Real 10,
        b_name = Text ''scene'', b_quicklook = Null\<rparr>
       ''failed'' (Text ''2024-04-30'') (Text ''2024-05-01'') (Real 90) ''[]'' ''old/path'' (Real 2)
       (Text ''abc'') ''t0''"

definition open_db :: "row list \<Rightarrow> rcmdb" where
  "open_db rows =
     \<lparr>enabled = True,
      conn = Some ((store_with EXPECTED_QUERY_COLS EXPECTED_DL_COLS)\<lparr>downloads := rows\<rparr>)\<rparr>"

section \<open>Properties\<close>

subsection \<open>Backoff\<close>

lemma backoff_le_max: "backoff attempt backoff_factor max_backoff \<le> max_backoff"
  by (simp add: backoff_def)

lemma backoff_mono:
  assumes "0 \<le> backoff_factor" and "i \<le> j"
  shows "backoff i backoff_factor max_backoff \<le> backoff j backoff_factor max_backoff"
proof -
  have "(2::real) ^ (i - 1) \<le> 2 ^ (j - 1)"
    using assms(2) by (intro power_increasing) auto
  then have "backoff_factor * 2 ^ (i - 1) \<le> backoff_factor * 2 ^ (j - 1)"
    using assms(1) by (rule mult_left_mono)
  then show ?thesis
    unfolding backoff_def by (rule min.mono[OF order_refl])
qed

lemma retry_after_Some_iff:
  "retry_after e resp = Some v \<longleftrightarrow>
     (\<exists>r ra. resp = Some r \<and> status_code r = 429 \<and> headers r ''Retry-After'' = Some ra
        \<and> ra \<noteq> [] \<and> py_float e ra = Some v)"
  by (auto simp: retry_after_def split: option.splits if_splits)

lemma jitter_range:
  assumes "0 \<le> py_random e (draws s)" and "py_random e (draws s) \<le> 1"
  shows "1 / 2 \<le> jitter e s \<and> jitter e s \<le> 1"
  using assms by (simp add: jitter_def)

lemma time_sleep_ok:
  "0 \<le> secs \<Longrightarrow> secs \<le> sleep_limit e
     \<Longrightarrow> time_sleep e secs s = (Inr (), s\<lparr>slept := slept s @ [secs]\<rparr>)"
  by (simp add: time_sleep_def)

text \<open>
  C4. In the request executor the delay before jitter is the value of \<open>Retry-After\<close> when
  the response is a 429 whose header \<open>float()\<close> accepts, and
  \<open>min(max_backoff, backoff_factor * 2^(attempt-1))\<close> in every other case; the latter
  never exceeds \<open>max_backoff\<close> and, for a non-negative factor, does not decrease with the
  attempt number. The length slept is the delay times \<open>0.5 + 0.5 * random()\<close>, a factor
  between 0.5 and 1 for a draw between 0 and 1. (\<open>time.sleep\<close> raises on a product that
  is negative or beyond its limit: then nothing is slept.)
\<close>

theorem sleep_for_retry_delay:
  "(status_code r = 429 \<and> headers r ''Retry-After'' = Some ra \<and> ra \<noteq> [] \<and> py_float e ra = Some v
      \<longrightarrow> retry_delay e (Some r) attempt backoff_factor max_backoff = v)
   \<and> ((\<nexists>r' ra' v'. resp = Some r' \<and> status_code r' = 429 \<and> headers r' ''Retry-After'' = Some ra'
          \<and> ra' \<noteq> [] \<and> py_float e ra' = Some v')
      \<longrightarrow> retry_delay e resp attempt backoff_factor max_backoff
            = min max_backoff (backoff_factor * 2 ^ (attempt - 1)))
   \<and> min max_backoff (backoff_factor * 2 ^ (attempt - 1)) \<le> max_backoff
   \<and> (0 \<le> backoff_factor \<and> i \<le> j
      \<longrightarrow> min max_backoff (backoff_factor * 2 ^ (i - 1))
            \<le> min max_backoff (backoff_factor * 2 ^ (j - 1)))
   \<and> (0 \<le> retry_delay e resp attempt backoff_factor max_backoff * jitter e s
      \<and> retry_delay e resp attempt backoff_factor max_backoff * jitter e s \<le> sleep_limit e
      \<longrightarrow> sleep_for_retry e resp attempt backoff_factor max_backoff s
            = (Inr (), s\<lparr>draws := Suc (draws s),
                 slept := slept s @ [retry_delay e resp attempt backoff_factor max_backoff
                                      * (0.5 + 0.5 * py_random e (draws s))]\<rparr>))
   \<and> (0 \<le> py_random e (draws s) \<and> py_random e (draws s) \<le> 1
      \<longrightarrow> 0.5 \<le> 0.5 + 0.5 * py_random e (draws s) \<and> 0.5 + 0.5 * py_random e (draws s) \<le> 1)
   \<and> sleep_for_retry e resp attempt backoff_factor max_backoff s
       = (if retry_delay e resp attempt backoff_factor max_backoff
               * (0.5 + 0.5 * py_random e (draws s)) < - sleep_limit e
             \<or> sleep_limit e < retry_delay e resp attempt backoff_factor max_backoff
                                  * (0.5 + 0.5 * py_random e (draws s))
          then (Inl OverflowError, s\<lparr>draws := Suc (draws s)\<rparr>)
          else if retry_delay e resp attempt backoff_factor max_backoff
                    * (0.5 + 0.5 * py_random e (draws s)) < 0
          then (Inl ValueError, s\<lparr>draws := Suc (draws s)\<rparr>)
          else (Inr (), s\<lparr>draws := Suc (draws s),
                  slept := slept s @ [retry_delay e resp attempt backoff_factor max_backoff
                                       * (0.5 + 0.5 * py_random e (draws s))]\<rparr>))"
proof (intro conjI impI)
  assume "status_code r = 429 \<and> headers r ''Retry-After'' = Some ra \<and> ra \<noteq> []
            \<and> py_float e ra = Some v"
  then have "retry_after e (Some r) = Some v"
    by (simp add: retry_after_def)
  then show "retry_delay e (Some r) attempt backoff_factor max_backoff = v"
    by (simp add: retry_delay_def)
next
  assume "\<nexists>r' ra' v'. resp = Some r' \<and> status_code r' = 429
            \<and> headers r' ''Retry-After'' = Some ra' \<and> ra' \<noteq> [] \<and> py_float e ra' = Some v'"
  then have "retry_after e resp = None"
    by (auto simp: retry_after_def split: option.splits if_splits)
  then show "retry_delay e resp attempt backoff_factor max_backoff
               = min max_backoff (backoff_factor * 2 ^ (attempt - 1))"
    by (simp add: retry_delay_def backoff_def)
next
  show "min max_backoff (backoff_factor * 2 ^ (attempt - 1)) \<le> max_backoff"
    by simp
next
  assume "0 \<le> backoff_factor \<and> i \<le> j"
  then show "min max_backoff (backoff_factor * 2 ^ (i - 1))
               \<le> min max_backoff (backoff_factor * 2 ^ (j - 1))"
    using backoff_mono[of backoff_factor i j max_backoff] by (simp add: backoff_def)
next
  assume "0 \<le> retry_delay e resp attempt backoff_factor max_backoff * jitter e s
          \<and> retry_delay e resp attempt backoff_factor max_backoff * jitter e s \<le> sleep_limit e"
  then show "sleep_for_retry e resp attempt backoff_factor max_backoff s
               = (Inr (), s\<lparr>draws := Suc (draws s),
                    slept := slept s @ [retry_delay e resp attempt backoff_factor max_backoff
                                         * (0.5 + 0.5 * py_random e (draws s))]\<rparr>)"
    by (simp add: sleep_for_retry_def time_sleep_def jitter_def)
next
  show "sleep_for_retry e resp attempt backoff_factor max_backoff s
       = (if retry_delay e resp attempt backoff_factor max_backoff
               * (0.5 + 0.5 * py_random e (draws s)) < - sleep_limit e
             \<or> sleep_limit e < retry_delay e resp attempt backoff_factor max_backoff
                                  * (0.5 + 0.5 * py_random e (draws s))
          then (Inl OverflowError, s\<lparr>draws := Suc (draws s)\<rparr>)
          else if retry_delay e resp attempt backoff_factor max_backoff
                    * (0.5 + 0.5 * py_random e (draws s)) < 0
          then (Inl ValueError, s\<lparr>draws := Suc (draws s)\<rparr>)
          else (Inr (), s\<lparr>draws := Suc (draws s),
                  slept := slept s @ [retry_delay e resp attempt backoff_factor max_backoff
                                       * (0.5 + 0.5 * py_random e (draws s))]\<rparr>))"
    by (simp add: sleep_for_retry_def time_sleep_def jitter_def)
qed auto

lemmas env_defs = const_env_def plain_response_def quiet_sys_def dec_nat_def digit_def

theorem sleep_for_retry_delay_witness:
  "retry_delay silent_env (Some retry_after_7) 3 1 30 = 7
   \<and> retry_delay silent_env (Some (plain_response 503)) 3 1 30 = 4
   \<and> retry_delay silent_env (Some (plain_response 503)) 9 1 30 = 30
   \<and> sleep_for_retry silent_env (Some (plain_response 503)) 3 1 30 quiet_sys
       = (Inr (), quiet_sys\<lparr>draws := 1, slept := [2]\<rparr>)"
  using sleep_for_retry_delay[where r = retry_after_7 and ra = "''7''" and e = silent_env
      and v = 7 and attempt = 3 and backoff_factor = 1 and max_backoff = 30
      and resp = "Some (plain_response 503)" and i = 1 and j = 2 and s = quiet_sys]
    sleep_for_retry_delay[where r = retry_after_7 and ra = "''7''" and e = silent_env
      and v = 7 and attempt = 9 and backoff_factor = 1 and max_backoff = 30
      and resp = "Some (plain_response 503)" and i = 1 and j = 2 and s = quiet_sys]
  by (simp add: silent_env_def retry_after_7_def env_defs jitter_def)

subsection \<open>The request executor\<close>

declare request_loop.simps [simp del]
declare download_loop.simps [simp del]

lemma jitter_nonneg: "sane_random e \<Longrightarrow> 0 \<le> jitter e s"
  by (simp add: sane_random_def jitter_def)

lemma jitter_le_one: "sane_random e \<Longrightarrow> jitter e s \<le> 1"
proof -
  assume "sane_random e"
  then have "py_random e (draws s) \<le> 1"
    unfolding sane_random_def by (meson less_imp_le)
  then show ?thesis by (simp add: jitter_def)
qed

lemma backoff_nonneg: "0 \<le> bf \<Longrightarrow> 0 \<le> mb \<Longrightarrow> 0 \<le> backoff a bf mb"
  by (simp add: backoff_def)

lemma jittered_in_range:
  fixes d :: real
  assumes "0 \<le> d" and "d \<le> cap" and "0 \<le> j" and "j \<le> 1"
  shows "0 \<le> d * j \<and> d * j \<le> cap"
proof -
  have "d * j \<le> d" using assms(1,4) by (rule mult_left_le[rotated])
  then show ?thesis using assms by simp
qed


lemma retry_delay_bounds:
  assumes "sane_retry_after e u hdrs" and "prepare_request e k u hdrs = Inr (Some r)"
    and "0 \<le> bf" and "0 \<le> mb" and "mb \<le> sleep_limit e"
  shows "0 \<le> retry_delay e (Some r) a bf mb \<and> retry_delay e (Some r) a bf mb \<le> sleep_limit e"
proof (cases "retry_after e (Some r)")
  case None
  then show ?thesis
    using assms(3,4,5) backoff_le_max[of a bf mb] by (simp add: retry_delay_def backoff_nonneg)
next
  case (Some v)
  then obtain ra where "headers r ''Retry-After'' = Some ra" and "py_float e ra = Some v"
    by (auto simp: retry_after_Some_iff)
  then have "0 \<le> v \<and> v \<le> sleep_limit e"
    using assms(1,2) unfolding sane_retry_after_def by blast
  then show ?thesis using Some by (simp add: retry_delay_def)
qed

lemma sleep_for_retry_ok:
  assumes "0 \<le> retry_delay e resp a bf mb * jitter e s"
    and "retry_delay e resp a bf mb * jitter e s \<le> sleep_limit e"
  shows "sleep_for_retry e resp a bf mb s
           = (Inr (), s\<lparr>draws := Suc (draws s),
                slept := slept s @ [retry_delay e resp a bf mb * jitter e s]\<rparr>)"
  using assms by (simp add: sleep_for_retry_def time_sleep_def jitter_def)

lemma request_attempt_terminal:
  assumes "prepare_request e (reqs s) u hdrs = Inr (Some r)"
    and "status_code r = 200 \<or> status_code r = 202 \<or> \<not> retryable (status_code r) \<or> max_retries \<le> attempt"
  shows "request_attempt e u hdrs max_retries bf mb attempt s
           = (Return (Some r), s\<lparr>reqs := Suc (reqs s)\<rparr>)"
  using assms by (auto simp: request_attempt_def Let_def)



lemma request_attempt_reqs:
  "request_attempt e u hdrs n bf mb a s = (st, s') \<Longrightarrow> reqs s' = Suc (reqs s)"
  by (auto simp: request_attempt_def sleep_for_retry_def time_sleep_def Let_def
           split: sum.splits option.splits if_splits prod.splits)

lemma request_attempt_Raise_sane:
  assumes "sane_random e" "sane_retry_after e u hdrs" "0 \<le> bf" "0 \<le> mb" "mb \<le> sleep_limit e"
    and "request_attempt e u hdrs n bf mb a s = (Raise x, s')"
  shows "prepare_request e (reqs s) u hdrs = Inl x"
proof (cases "prepare_request e (reqs s) u hdrs")
  case (Inl y)
  then show ?thesis using assms(6) by (simp add: request_attempt_def)
next
  case (Inr resp)
  show ?thesis
  proof (cases resp)
    case None
    then show ?thesis using Inr assms(6) by (simp add: request_attempt_def)
  next
    case (Some r)
    have "prepare_request e (reqs s) u hdrs = Inr (Some r)" using Inr Some by simp
    from retry_delay_bounds[OF assms(2) this assms(3,4,5)]
    have "0 \<le> retry_delay e (Some r) a bf mb * jitter e (s\<lparr>reqs := Suc (reqs s)\<rparr>)
        \<and> retry_delay e (Some r) a bf mb * jitter e (s\<lparr>reqs := Suc (reqs s)\<rparr>) \<le> sleep_limit e"
      using jitter_nonneg[OF assms(1)] jitter_le_one[OF assms(1)]
      by (intro jittered_in_range) auto
    then have "sleep_for_retry e (Some r) a bf mb (s\<lparr>reqs := Suc (reqs s)\<rparr>)
        = (Inr (), s\<lparr>reqs := Suc (reqs s), draws := Suc (draws (s\<lparr>reqs := Suc (reqs s)\<rparr>)),
             slept := slept (s\<lparr>reqs := Suc (reqs s)\<rparr>)
               @ [retry_delay e (Some r) a bf mb * jitter e (s\<lparr>reqs := Suc (reqs s)\<rparr>)]\<rparr>)"
      by (intro sleep_for_retry_ok) auto
    then show ?thesis
      using Inr Some assms(6) by (simp add: request_attempt_def Let_def split: if_splits)
  qed
qed



lemma request_loop_Inl:
  assumes "sane_random e" "sane_retry_after e u hdrs" "0 \<le> bf" "0 \<le> mb" "mb \<le> sleep_limit e"
  shows "request_loop e u hdrs n bf mb a prev s = (Inl x, s')
           \<Longrightarrow> \<exists>k. reqs s \<le> k \<and> k < reqs s' \<and> prepare_request e k u hdrs = Inl x"
  using assms
proof (induction e u hdrs n bf mb a prev s rule: request_loop.induct)
  case (1 e u hdrs n bf mb a prev s)
  from "1.prems"(1) have run: "\<not> n < a"
    by (subst (asm) request_loop.simps) (auto split: if_splits)
  obtain st s1 where att: "request_attempt e u hdrs n bf mb a s = (st, s1)"
    by (cases "request_attempt e u hdrs n bf mb a s")
  have r1: "reqs s1 = Suc (reqs s)" using request_attempt_reqs[OF att] .
  show ?case
  proof (cases st)
    case (Return r)
    then show ?thesis using "1.prems"(1) run att
      by (subst (asm) request_loop.simps) simp
  next
    case (Raise y)
    then have "x = y" "s' = s1" using "1.prems"(1) run att
      by (subst (asm) request_loop.simps, simp)+
    moreover have "prepare_request e (reqs s) u hdrs = Inl y"
      using request_attempt_Raise_sane[OF "1.prems"(2-6)] att Raise by simp
    ultimately show ?thesis using r1 by auto
  next
    case (Continue r)
    then have "request_loop e u hdrs n bf mb (Suc a) r s1 = (Inl x, s')"
      using "1.prems"(1) run att by (subst (asm) request_loop.simps) simp
    from "1.IH"[OF run att[symmetric] Continue this "1.prems"(2-6)]
    obtain k where "reqs s1 \<le> k" "k < reqs s'" "prepare_request e k u hdrs = Inl x" by blast
    then show ?thesis using r1 by (intro exI[of _ k]) auto
  qed
qed


subsection \<open>The download loop\<close>

lemma jitter_reqs [simp]: "jitter e (s\<lparr>reqs := k\<rparr>) = jitter e s"
  by (simp add: jitter_def)

lemma jitter_files [simp]: "jitter e (s\<lparr>files := f\<rparr>) = jitter e s"
  by (simp add: jitter_def)

lemma backoff_sleep_ok:
  assumes "0 \<le> backoff a bf mb * jitter e s"
    and "backoff a bf mb * jitter e s \<le> sleep_limit e"
  shows "backoff_sleep e a bf mb s
           = (Inr (), s\<lparr>draws := Suc (draws s), slept := slept s @ [backoff a bf mb * jitter e s]\<rparr>)"
  using assms by (simp add: backoff_sleep_def time_sleep_def)

lemma backoff_sleep_frame:
  assumes "backoff_sleep e a bf mb s = (res, s')"
  shows "files s' = files s \<and> dirs s' = dirs s \<and> reqs s' = reqs s"
  using assms by (auto simp: backoff_sleep_def time_sleep_def split: if_splits)


lemma on_exception_frame:
  assumes "on_exception e dest n bf mb a x s = (st, s')"
  shows "files s' = (files s)(dest @ ''.part'' := None) \<and> dirs s' = dirs s \<and> reqs s' = reqs s"
proof (cases "n \<le> a")
  case True
  then show ?thesis using assms by (auto simp: on_exception_def)
next
  case False
  let ?s1 = "s\<lparr>files := (files s)(dest @ ''.part'' := None)\<rparr>"
  obtain res s2 where bs: "backoff_sleep e a bf mb ?s1 = (res, s2)"
    by (cases "backoff_sleep e a bf mb ?s1")
  from backoff_sleep_frame[OF bs] have "files s2 = files ?s1" "dirs s2 = dirs ?s1" "reqs s2 = reqs ?s1"
    by auto
  moreover have "s' = s2" using assms False bs
    by (auto simp: on_exception_def Let_def split: sum.splits)
  ultimately show ?thesis by simp
qed

lemma on_exception_not_Return: "on_exception e dest n bf mb a x s \<noteq> (Return d, s')"
  by (auto simp: on_exception_def Let_def split: sum.splits prod.splits)

lemma on_exception_Continue:
  "on_exception e dest n bf mb a x s = (Continue c, s') \<Longrightarrow> a < n"
  by (auto simp: on_exception_def Let_def split: sum.splits prod.splits if_splits)


lemma parse_expected_size_None [simp]: "parse_expected_size e u None = size_param e u"
  by (simp add: parse_expected_size_def split: option.splits)

lemma os_replace_fresh:
  "src \<noteq> dst \<Longrightarrow> os_replace src dst (s\<lparr>files := (files s)(src \<mapsto> b)\<rparr>)
     = (Inr (), s\<lparr>files := (files s)(dst \<mapsto> b, src := None)\<rparr>)"
  by (simp add: os_replace_def fun_upd_twist)

lemma part_neq [simp]: "dest @ ''.part'' \<noteq> dest" "dest \<noteq> dest @ ''.part''"
  by (auto dest: arg_cong[where f = length])

lemma download_attempt_cases:
  assumes "download_attempt e u dest n bf mb a s = (st, s')"
  shows "reqs s' = Suc (reqs s) \<and> dirs s' = dirs s \<and>
         (case st of
            Return d \<Rightarrow> d = dest \<and> (\<exists>r. requests_get e (reqs s) u = Inr r \<and> complete_download e u r
                          \<and> files s' = (files s)(dest \<mapsto> concat (chunks r), dest @ ''.part'' := None))
          | Raise x \<Rightarrow> files s' = (files s)(dest @ ''.part'' := None)
          | Continue c \<Rightarrow> a < n \<and> (files s' = files s \<or> files s' = (files s)(dest @ ''.part'' := None)))"
proof -
  let ?s1 = "s\<lparr>reqs := Suc (reqs s)\<rparr>"
  let ?H = "on_exception e dest n bf mb a"
  let ?G = ?thesis
  have H: "\<And>x t. files t dest = files s dest \<Longrightarrow> (\<forall>p. p \<noteq> dest @ ''.part'' \<longrightarrow> files t p = files s p) \<Longrightarrow> dirs t = dirs s \<Longrightarrow> reqs t = Suc (reqs s) \<Longrightarrow> ?H x t = (st, s') \<Longrightarrow> ?G"
  proof -
    fix x t
    assume t: "files t dest = files s dest" "\<forall>p. p \<noteq> dest @ ''.part'' \<longrightarrow> files t p = files s p"
      "dirs t = dirs s" "reqs t = Suc (reqs s)" and h: "?H x t = (st, s')"
    from on_exception_frame[OF h] have f: "files s' = (files t)(dest @ ''.part'' := None)" "dirs s' = dirs t" "reqs s' = reqs t"
      by auto
    have fe: "files s' = (files s)(dest @ ''.part'' := None)"
      using f(1) t(2) by (auto simp: fun_eq_iff)
    show ?G
    proof (cases st)
      case (Return d)
      then show ?G using h on_exception_not_Return by blast
    next
      case (Raise y)
      then show ?G using f t fe by simp
    next
      case (Continue c)
      then show ?G using f t fe on_exception_Continue[of e dest n bf mb a x t c s'] h by simp
    qed
  qed
  show ?thesis
  proof (cases "requests_get e (reqs s) u")
    case (Inl x)
    then have "?H x ?s1 = (st, s')" using assms by (simp add: download_attempt_def Let_def)
    then show ?thesis by (rule H[rotated -1]) auto
  next
    case (Inr r)
    show ?thesis
    proof (cases "retryable (status_code r) \<and> a < n")
      case True
      obtain res s2 where bs: "backoff_sleep e a bf mb ?s1 = (res, s2)"
        by (cases "backoff_sleep e a bf mb ?s1")
      from backoff_sleep_frame[OF bs] have fr: "files s2 = files s" "dirs s2 = dirs s" "reqs s2 = Suc (reqs s)"
        by auto
      show ?thesis
      proof (cases res)
        case (Inl y)
        then have "?H y s2 = (st, s')" using assms Inr True bs
          by (simp add: download_attempt_def Let_def)
        then show ?thesis by (rule H[rotated -1]) (use fr in auto)
      next
        case (Inr v)
        then have "st = Continue ()" "s' = s2" using assms \<open>requests_get e (reqs s) u = Inr r\<close> True bs
          by (simp_all add: download_attempt_def Let_def)
        then show ?thesis using fr True by simp
      qed
    next
      case nr: False
      show ?thesis
      proof (cases "400 \<le> status_code r \<and> status_code r < 600")
        case True
        then have "?H (HTTPError (status_code r)) ?s1 = (st, s')" using assms Inr nr
          by (simp add: download_attempt_def Let_def)
        then show ?thesis by (rule H[rotated -1]) auto
      next
        case ok: False
        let ?body = "concat (chunks r)"
        let ?s2 = "?s1\<lparr>files := (files ?s1)(dest @ ''.part'' \<mapsto> ?body)\<rparr>"
        have s2: "files ?s2 dest = files s dest" "\<forall>p. p \<noteq> dest @ ''.part'' \<longrightarrow> files ?s2 p = files s p"
          "dirs ?s2 = dirs s" "reqs ?s2 = Suc (reqs s)" by auto
        show ?thesis
        proof (cases "stream_fails r")
          case True
          then have "?H StreamError ?s2 = (st, s')" using assms Inr nr ok
            by (simp add: download_attempt_def Let_def)
          then show ?thesis using s2 by (rule H[rotated -1])
        next
          case sf: False
          have rep: "os_replace (dest @ ''.part'') dest ?s2
                      = (Inr (), ?s1\<lparr>files := (files ?s1)(dest \<mapsto> ?body, dest @ ''.part'' := None)\<rparr>)"
            using os_replace_fresh[of "dest @ ''.part''" dest ?s1 ?body] by simp
          show ?thesis
          proof (cases "\<exists>m. size_param e u = Some m \<and> int (length ?body) \<noteq> m")
            case True
            then obtain m where m: "size_param e u = Some m" "int (length ?body) \<noteq> m" by blast
            then have "?H (SizeMismatch m (int (length ?body))) ?s2 = (st, s')"
              using assms Inr nr ok sf by (simp add: download_attempt_def Let_def)
            then show ?thesis using s2 by (rule H[rotated -1])
          next
            case False
            then have cd: "complete_download e u r"
              using sf ok by (auto simp: complete_download_def split: option.splits)
            have "st = Return dest \<and> s' = ?s1\<lparr>files := (files ?s1)(dest \<mapsto> ?body, dest @ ''.part'' := None)\<rparr>"
              using assms Inr nr ok sf False rep
              by (auto simp: download_attempt_def Let_def split: option.splits)
            then show ?thesis using cd Inr by auto
          qed
        qed
      qed
    qed
  qed
qed

lemma retryable_is_error: "retryable c \<Longrightarrow> 400 \<le> c \<and> c < 600"
  by (auto simp: retryable_def)

lemma on_exception_last:
  "n \<le> a \<Longrightarrow> on_exception e dest n bf mb a x s
     = (Raise x, s\<lparr>files := (files s)(dest @ ''.part'' := None)\<rparr>)"
  by (simp add: on_exception_def)

lemma on_exception_retry:
  assumes "a < n" and "0 \<le> backoff a bf mb * jitter e s"
    and "backoff a bf mb * jitter e s \<le> sleep_limit e"
  shows "on_exception e dest n bf mb a x s
     = (Continue (), s\<lparr>files := (files s)(dest @ ''.part'' := None), draws := Suc (draws s),
          slept := slept s @ [backoff a bf mb * jitter e s]\<rparr>)"
  using assms backoff_sleep_ok[of a bf mb e "s\<lparr>files := (files s)(dest @ ''.part'' := None)\<rparr>"]
  by (simp add: on_exception_def Let_def)



lemma download_attempt_http_error:
  assumes "requests_get e (reqs s) u = Inr r" "400 \<le> status_code r" "status_code r < 600"
    and "n \<le> a \<or> \<not> retryable (status_code r)"
  shows "download_attempt e u dest n bf mb a s
     = on_exception e dest n bf mb a (HTTPError (status_code r)) (s\<lparr>reqs := Suc (reqs s)\<rparr>)"
  using assms by (auto simp: download_attempt_def Let_def)

lemma download_attempt_mismatch:
  assumes "requests_get e (reqs s) u = Inr r" "\<not> (400 \<le> status_code r \<and> status_code r < 600)"
    and "\<not> stream_fails r" and "size_param e u = Some m" and "int (length (concat (chunks r))) \<noteq> m"
  shows "download_attempt e u dest n bf mb a s
     = on_exception e dest n bf mb a (SizeMismatch m (int (length (concat (chunks r)))))
         (s\<lparr>reqs := Suc (reqs s), files := (files s)(dest @ ''.part'' \<mapsto> concat (chunks r))\<rparr>)"
  using assms retryable_is_error[of "status_code r"] by (auto simp: download_attempt_def Let_def)

lemma download_attempt_stream_fails:
  assumes "requests_get e (reqs s) u = Inr r" "\<not> (400 \<le> status_code r \<and> status_code r < 600)"
    and "stream_fails r"
  shows "download_attempt e u dest n bf mb a s
     = on_exception e dest n bf mb a StreamError
         (s\<lparr>reqs := Suc (reqs s), files := (files s)(dest @ ''.part'' \<mapsto> concat (chunks r))\<rparr>)"
  using assms retryable_is_error[of "status_code r"] by (auto simp: download_attempt_def Let_def)

lemma download_attempt_commit:
  assumes "requests_get e (reqs s) u = Inr r" and "complete_download e u r"
  shows "download_attempt e u dest n bf mb a s
     = (Return dest, s\<lparr>reqs := Suc (reqs s),
          files := (files s)(dest \<mapsto> concat (chunks r), dest @ ''.part'' := None)\<rparr>)"
proof -
  have ok: "\<not> (400 \<le> status_code r \<and> status_code r < 600)" "\<not> stream_fails r"
    using assms(2) by (auto simp: complete_download_def)
  have nr: "\<not> retryable (status_code r)" using ok retryable_is_error by blast
  have rep: "os_replace (dest @ ''.part'') dest
       (s\<lparr>reqs := Suc (reqs s), files := (files s)(dest @ ''.part'' \<mapsto> concat (chunks r))\<rparr>)
     = (Inr (), s\<lparr>reqs := Suc (reqs s),
          files := (files s)(dest \<mapsto> concat (chunks r), dest @ ''.part'' := None)\<rparr>)"
    using os_replace_fresh[of "dest @ ''.part''" dest "s\<lparr>reqs := Suc (reqs s)\<rparr>" "concat (chunks r)"]
    by simp
  show ?thesis
    using assms ok nr rep
    by (auto simp: download_attempt_def Let_def complete_download_def split: option.splits)
qed


lemma download_loop_step:
  "a \<le> n \<Longrightarrow> download_loop e u dest n bf mb a s =
     (case download_attempt e u dest n bf mb a s of
        (Return d, s') \<Rightarrow> (Inr d, s')
      | (Raise x, s') \<Rightarrow> (Inl x, s')
      | (Continue c, s') \<Rightarrow> download_loop e u dest n bf mb (Suc a) s')"
  by (subst download_loop.simps) simp

lemma request_loop_step:
  "a \<le> n \<Longrightarrow> request_loop e u hdrs n bf mb a prev s =
     (case request_attempt e u hdrs n bf mb a s of
        (Return r, s') \<Rightarrow> (Inr r, s')
      | (Raise x, s') \<Rightarrow> (Inl x, s')
      | (Continue r, s') \<Rightarrow> request_loop e u hdrs n bf mb (Suc a) r s')"
  by (subst request_loop.simps) simp


subsection \<open>What the retry layers return, and when they retry\<close>



lemma request_loop_terminal:
  assumes "prepare_request e (reqs s) u hdrs = Inr (Some r)" and "attempt \<le> max_retries"
    and "status_code r = 200 \<or> status_code r = 202 \<or> \<not> retryable (status_code r)
         \<or> attempt = max_retries"
  shows "request_loop e u hdrs max_retries bf mb attempt prev s
           = (Inr (Some r), s\<lparr>reqs := Suc (reqs s)\<rparr>)"
proof -
  have "request_attempt e u hdrs max_retries bf mb attempt s
          = (Return (Some r), s\<lparr>reqs := Suc (reqs s)\<rparr>)"
    using assms by (intro request_attempt_terminal) auto
  then show ?thesis
    using assms(2) by (simp add: request_loop_step)
qed

lemmas run_defs = request_with_retries_def request_loop.simps request_attempt_def
  sleep_for_retry_def time_sleep_def retry_delay_def retry_after_def backoff_def jitter_def
  retryable_def download_with_retries_def download_loop.simps download_attempt_def
  on_exception_def backoff_sleep_def os_replace_def parse_expected_size_def size_param_def

text \<open>
  C8, where the code departs from it. A response with status 200 or 202, with any status
  other than 429 and 5xx, or with a 429 or 5xx on the last attempt comes back from the
  executor at once, as \<open>request_loop_terminal\<close> shows. A 429 with attempts left does not
  always lead to a further attempt or to a returned response: \<open>_sleep_for_retry\<close> guards
  \<open>float(ra)\<close> against a header that is no number, and hands any number to \<open>time.sleep\<close>.
  The catalog answers 429 with \<open>Retry-After: -1\<close> and five attempts are allowed:
  \<open>prepare_request\<close> raised nothing, and the \<open>ValueError\<close> of \<open>time.sleep\<close> leaves the
  executor after the first request, nothing slept.
\<close>

theorem negative_retry_after_raises:
  "prepare_request throttling_env 0 ''u'' Map.empty = Inr (Some retry_after_negative)
   \<and> status_code retry_after_negative = 429
   \<and> fst (request_with_retries throttling_env ''u'' Map.empty 5 1 30 quiet_sys) = Inl ValueError
   \<and> reqs (snd (request_with_retries throttling_env ''u'' Map.empty 5 1 30 quiet_sys)) = 1
   \<and> slept (snd (request_with_retries throttling_env ''u'' Map.empty 5 1 30 quiet_sys)) = []"
  by (simp add: throttling_env_def retry_after_negative_def env_defs run_defs)




subsection \<open>The size check\<close>

text \<open>
  C6, as the code has it. The size that is checked after the stream is the \<open>size\<close> query
  parameter of the URL, which also wins over \<open>Content-Length\<close> wherever both are read.
  When the stream has ended and the temporary file's size differs from it, the attempt
  fails with a size mismatch: on the last attempt the error is raised, before that the
  loop sleeps and goes on (or raises what \<open>time.sleep\<close> raises on a backoff that is negative
  or beyond its limit), and in every case the temporary file is gone and the destination
  untouched. When the sizes agree, or the URL names no size, the file is
  committed; \<open>Content-Length\<close> plays no part.
\<close>

theorem size_check_after_stream:
  "(requests_get e (reqs s) u = Inr r \<and> \<not> (400 \<le> status_code r \<and> status_code r < 600)
      \<and> \<not> stream_fails r \<and> size_param e u = Some m
      \<and> int (length (concat (chunks r))) \<noteq> m
     \<longrightarrow> parse_expected_size e u (Some r) = Some m
        \<and> (attempt = max_retries
            \<longrightarrow> download_loop e u dest max_retries backoff_factor max_backoff attempt s
                 = (Inl (SizeMismatch m (int (length (concat (chunks r))))),
                    s\<lparr>reqs := Suc (reqs s), files := (files s)(dest @ ''.part'' := None)\<rparr>))
        \<and> (attempt < max_retries
              \<and> 0 \<le> backoff attempt backoff_factor max_backoff * jitter e s
              \<and> backoff attempt backoff_factor max_backoff * jitter e s \<le> sleep_limit e
            \<longrightarrow> download_loop e u dest max_retries backoff_factor max_backoff attempt s
                 = download_loop e u dest max_retries backoff_factor max_backoff (Suc attempt)
                     (s\<lparr>reqs := Suc (reqs s), files := (files s)(dest @ ''.part'' := None),
                        draws := Suc (draws s),
                        slept := slept s
                          @ [backoff attempt backoff_factor max_backoff * jitter e s]\<rparr>))
        \<and> (attempt < max_retries
              \<and> (backoff attempt backoff_factor max_backoff * jitter e s < 0
                   \<or> sleep_limit e < backoff attempt backoff_factor max_backoff * jitter e s)
            \<longrightarrow> download_loop e u dest max_retries backoff_factor max_backoff attempt s
                 = (Inl (if backoff attempt backoff_factor max_backoff * jitter e s
                              < - sleep_limit e
                            \<or> sleep_limit e
                                < backoff attempt backoff_factor max_backoff * jitter e s
                         then OverflowError else ValueError),
                    s\<lparr>reqs := Suc (reqs s), files := (files s)(dest @ ''.part'' := None),
                      draws := Suc (draws s)\<rparr>)))
   \<and> (requests_get e (reqs s) u = Inr r \<and> \<not> (400 \<le> status_code r \<and> status_code r < 600)
      \<and> \<not> stream_fails r \<and> attempt \<le> max_retries
      \<and> (size_param e u = None \<or> size_param e u = Some (int (length (concat (chunks r)))))
     \<longrightarrow> download_loop e u dest max_retries backoff_factor max_backoff attempt s
           = (Inr dest, s\<lparr>reqs := Suc (reqs s),
                files := (files s)(dest \<mapsto> concat (chunks r), dest @ ''.part'' := None)\<rparr>))"
proof (intro conjI impI)
  assume a: "requests_get e (reqs s) u = Inr r \<and> \<not> (400 \<le> status_code r \<and> status_code r < 600)
      \<and> \<not> stream_fails r \<and> size_param e u = Some m
      \<and> int (length (concat (chunks r))) \<noteq> m"
  then show "parse_expected_size e u (Some r) = Some m"
    by (simp add: parse_expected_size_def)
  let ?len = "int (length (concat (chunks r)))"
  let ?s2 = "s\<lparr>reqs := Suc (reqs s), files := (files s)(dest @ ''.part'' \<mapsto> concat (chunks r))\<rparr>"
  have att: "download_attempt e u dest max_retries backoff_factor max_backoff attempt s
      = on_exception e dest max_retries backoff_factor max_backoff attempt (SizeMismatch m ?len) ?s2"
    using a by (intro download_attempt_mismatch) auto
  {
    assume last: "attempt = max_retries"
    show "download_loop e u dest max_retries backoff_factor max_backoff attempt s
            = (Inl (SizeMismatch m ?len),
               s\<lparr>reqs := Suc (reqs s), files := (files s)(dest @ ''.part'' := None)\<rparr>)"
      using last att by (simp add: download_loop_step on_exception_last)
  }
  {
    assume more: "attempt < max_retries
              \<and> 0 \<le> backoff attempt backoff_factor max_backoff * jitter e s
              \<and> backoff attempt backoff_factor max_backoff * jitter e s \<le> sleep_limit e"
    then have "on_exception e dest max_retries backoff_factor max_backoff attempt
                 (SizeMismatch m ?len) ?s2
       = (Continue (), ?s2\<lparr>files := (files ?s2)(dest @ ''.part'' := None),
            draws := Suc (draws ?s2),
            slept := slept ?s2 @ [backoff attempt backoff_factor max_backoff * jitter e ?s2]\<rparr>)"
      by (intro on_exception_retry) (auto simp: jitter_def)
    then show "download_loop e u dest max_retries backoff_factor max_backoff attempt s
                 = download_loop e u dest max_retries backoff_factor max_backoff (Suc attempt)
                     (s\<lparr>reqs := Suc (reqs s), files := (files s)(dest @ ''.part'' := None),
                        draws := Suc (draws s),
                        slept := slept s
                          @ [backoff attempt backoff_factor max_backoff * jitter e s]\<rparr>)"
      using more att by (simp add: download_loop_step jitter_def)
  }
  {
    assume refused: "attempt < max_retries
              \<and> (backoff attempt backoff_factor max_backoff * jitter e s < 0
                   \<or> sleep_limit e < backoff attempt backoff_factor max_backoff * jitter e s)"
    then have "on_exception e dest max_retries backoff_factor max_backoff attempt
                 (SizeMismatch m ?len) ?s2
       = (Raise (if backoff attempt backoff_factor max_backoff * jitter e s < - sleep_limit e
                    \<or> sleep_limit e < backoff attempt backoff_factor max_backoff * jitter e s
                 then OverflowError else ValueError),
          s\<lparr>reqs := Suc (reqs s), files := (files s)(dest @ ''.part'' := None),
            draws := Suc (draws s)\<rparr>)"
      by (auto simp: on_exception_def backoff_sleep_def time_sleep_def jitter_def Let_def)
    then show "download_loop e u dest max_retries backoff_factor max_backoff attempt s
                 = (Inl (if backoff attempt backoff_factor max_backoff * jitter e s
                              < - sleep_limit e
                            \<or> sleep_limit e
                                < backoff attempt backoff_factor max_backoff * jitter e s
                         then OverflowError else ValueError),
                    s\<lparr>reqs := Suc (reqs s), files := (files s)(dest @ ''.part'' := None),
                      draws := Suc (draws s)\<rparr>)"
      using refused att by (simp add: download_loop_step)
  }
next
  assume a: "requests_get e (reqs s) u = Inr r \<and> \<not> (400 \<le> status_code r \<and> status_code r < 600)
      \<and> \<not> stream_fails r \<and> attempt \<le> max_retries
      \<and> (size_param e u = None \<or> size_param e u = Some (int (length (concat (chunks r)))))"
  then have "complete_download e u r"
    by (auto simp: complete_download_def)
  then show "download_loop e u dest max_retries backoff_factor max_backoff attempt s
           = (Inr dest, s\<lparr>reqs := Suc (reqs s),
                files := (files s)(dest \<mapsto> concat (chunks r), dest @ ''.part'' := None)\<rparr>)"
    using a by (simp add: download_loop_step download_attempt_commit)
qed

theorem size_check_after_stream_witness:
  "download_loop (serving_env (body_response [''abc''])) test_url ''d'' 2 1 20 2 quiet_sys
     = (Inl (SizeMismatch 5 3), quiet_sys\<lparr>reqs := 1\<rparr>)
   \<and> download_loop (serving_env (body_response [''abc''])) test_url ''d'' 2 1 20 1 quiet_sys
     = (Inl (SizeMismatch 5 3), quiet_sys\<lparr>reqs := 2, draws := 1, slept := [1 / 2]\<rparr>)
   \<and> download_loop (serving_env (body_response [''hel'', ''lo''])) test_url ''d'' 2 1 20 1 quiet_sys
     = (Inr ''d'', quiet_sys\<lparr>reqs := 1, files := [''d'' \<mapsto> ''hello'']\<rparr>)
   \<and> download_loop (serving_env (body_response [''abc''])) test_url ''d'' 2 (- 1) 20 1 quiet_sys
     = (Inl ValueError, quiet_sys\<lparr>reqs := 1, draws := 1\<rparr>)"
proof -
  let ?e = "serving_env (body_response [''abc''])"
  have pre: "requests_get ?e (reqs quiet_sys) test_url = Inr (body_response [''abc''])
      \<and> \<not> (400 \<le> status_code (body_response [''abc''])
            \<and> status_code (body_response [''abc'']) < 600)
      \<and> \<not> stream_fails (body_response [''abc'']) \<and> size_param ?e test_url = Some 5
      \<and> int (length (concat (chunks (body_response [''abc''])))) \<noteq> 5"
    by (simp add: serving_env_def body_response_def test_url_def env_defs size_param_def)
  have c1: "download_loop ?e test_url ''d'' 2 1 20 2 quiet_sys
      = (Inl (SizeMismatch 5 3), quiet_sys\<lparr>reqs := 1\<rparr>)"
    using size_check_after_stream[where e = ?e and u = test_url and s = quiet_sys
        and r = "body_response [''abc'']" and m = 5 and dest = "''d''" and max_retries = 2
        and attempt = 2 and backoff_factor = 1 and max_backoff = 20,
        THEN conjunct1, THEN mp, OF pre, THEN conjunct2, THEN conjunct1]
    by (simp add: body_response_def plain_response_def quiet_sys_def)
  have c2: "download_loop ?e test_url ''d'' 2 1 20 1 quiet_sys
      = (Inl (SizeMismatch 5 3), quiet_sys\<lparr>reqs := 2, draws := 1, slept := [1 / 2]\<rparr>)"
    by (simp add: serving_env_def body_response_def test_url_def env_defs run_defs)
  have c3: "download_loop (serving_env (body_response [''hel'', ''lo''])) test_url ''d'' 2 1 20 1
              quiet_sys
      = (Inr ''d'', quiet_sys\<lparr>reqs := 1, files := [''d'' \<mapsto> ''hello'']\<rparr>)"
    by (simp add: serving_env_def body_response_def test_url_def env_defs run_defs)
  have neg: "(1 :: nat) < 2
      \<and> (backoff 1 (- 1) 20 * jitter ?e quiet_sys < 0
           \<or> sleep_limit ?e < backoff 1 (- 1) 20 * jitter ?e quiet_sys)"
    by (simp add: serving_env_def env_defs backoff_def jitter_def)
  have c4: "download_loop ?e test_url ''d'' 2 (- 1) 20 1 quiet_sys
      = (Inl ValueError, quiet_sys\<lparr>reqs := 1, draws := 1\<rparr>)"
    using size_check_after_stream[where e = ?e and u = test_url and s = quiet_sys
        and r = "body_response [''abc'']" and m = 5 and dest = "''d''" and max_retries = 2
        and attempt = 1 and backoff_factor = "- 1" and max_backoff = 20,
        THEN conjunct1, THEN mp, OF pre, THEN conjunct2, THEN conjunct2, THEN conjunct2,
        THEN mp, OF neg]
    by (simp add: serving_env_def env_defs backoff_def jitter_def)
  show ?thesis
    by (intro conjI c1 c2 c3 c4)
qed

text \<open>
  The URL names no size, the response announces \<open>Content-Length: 10\<close> and its body has
  five bytes: the expected size is known to be 10, and the five bytes are committed.
\<close>

theorem content_length_unchecked_counterexample:
  "parse_expected_size (serving_env short_response) plain_url (Some short_response) = Some 10
   \<and> download_with_retries (serving_env short_response) plain_url ''d'' 5 1 20 quiet_sys
     = (Inr ''d'', quiet_sys\<lparr>reqs := 1, files := [''d'' \<mapsto> ''hello'']\<rparr>)"
  by (simp add: serving_env_def short_response_def body_response_def plain_url_def env_defs run_defs)

subsection \<open>Paths\<close>

lemma basename_no_slash: "CHR ''/'' \<notin> set (os_path_basename p)"
  by (auto simp: os_path_basename_def dest: set_takeWhileD)

lemma task_filename_ok: "task_filename u \<noteq> [] \<and> hd (task_filename u) \<noteq> CHR ''/''"
proof -
  have "CHR ''/'' \<notin> set (task_filename u)"
    using basename_no_slash[of "url_path u"] by (auto simp: task_filename_def Let_def)
  moreover have ne: "task_filename u \<noteq> []"
    by (simp add: task_filename_def Let_def)
  ultimately show ?thesis
    by (metis hd_in_set)
qed

lemma in_progress_path_eq:
  "in_progress_path out_dir u = dir_prefix out_dir @ ''in_progress/'' @ task_filename u"
  using task_filename_ok[of u]
  by (simp add: in_progress_path_def os_path_join_def dir_prefix_def)

lemma completed_path_eq:
  "completed_path out_dir u = dir_prefix out_dir @ ''completed/'' @ task_filename u"
  using task_filename_ok[of u]
  by (simp add: completed_path_def os_path_join_def dir_prefix_def)

lemma completed_neq_in_progress:
  "completed_path out_dir u \<noteq> in_progress_path out_dir u"
  "completed_path out_dir u \<noteq> in_progress_path out_dir u @ ''.part''"
  by (simp_all add: completed_path_eq in_progress_path_eq)

subsection \<open>What the download loop does to the files\<close>

lemma download_loop_files:
  "download_loop e u dest n bf mb a s = (res, s') \<Longrightarrow> a \<le> n \<Longrightarrow>
     dirs s' = dirs s \<and> reqs s < reqs s'
     \<and> (\<forall>p. p \<noteq> dest \<and> p \<noteq> dest @ ''.part'' \<longrightarrow> files s' p = files s p)
     \<and> (case res of
           Inl x \<Rightarrow> files s' dest = files s dest
         | Inr d \<Rightarrow> d = dest
             \<and> (\<exists>r. requests_get e (reqs s' - 1) u = Inr r \<and> complete_download e u r
                   \<and> files s' dest = Some (concat (chunks r))))"
proof (induction e u dest n bf mb a s rule: download_loop.induct)
  case (1 e u dest n bf mb a s)
  have run: "\<not> n < a" using "1.prems"(2) by simp
  obtain st s1 where att: "download_attempt e u dest n bf mb a s = (st, s1)"
    by (cases "download_attempt e u dest n bf mb a s")
  note c = download_attempt_cases[OF att]
  show ?case
  proof (cases st)
    case (Return d)
    then have "res = Inr d" "s' = s1" using "1.prems" att by (simp_all add: download_loop_step)
    then show ?thesis using c Return by auto
  next
    case (Raise y)
    then have "res = Inl y" "s' = s1" using "1.prems" att by (simp_all add: download_loop_step)
    then show ?thesis using c Raise by auto
  next
    case (Continue k)
    then have loop: "download_loop e u dest n bf mb (Suc a) s1 = (res, s')"
      using "1.prems" att by (simp add: download_loop_step)
    have "Suc a \<le> n" using c Continue by simp
    from "1.IH"[OF run att[symmetric] Continue loop this]
    have ih: "dirs s' = dirs s1" "reqs s1 < reqs s'"
      "\<forall>p. p \<noteq> dest \<and> p \<noteq> dest @ ''.part'' \<longrightarrow> files s' p = files s1 p"
      "case res of
           Inl x \<Rightarrow> files s' dest = files s1 dest
         | Inr d \<Rightarrow> d = dest
             \<and> (\<exists>r. requests_get e (reqs s' - 1) u = Inr r \<and> complete_download e u r
                   \<and> files s' dest = Some (concat (chunks r)))"
      by auto
    have f1: "\<forall>p. p \<noteq> dest @ ''.part'' \<longrightarrow> files s1 p = files s p"
      using c Continue by auto
    have "files s1 dest = files s dest" using f1 by simp
    then show ?thesis using ih c f1 by (auto split: sum.splits)
  qed
qed

lemma maybe_unzip_frame:
  "maybe_unzip e fp od kz s = (res, s') \<Longrightarrow>
     reqs s' = reqs s \<and> draws s' = draws s \<and> slept s' = slept s
     \<and> (\<forall>p. p \<noteq> fp \<longrightarrow> files s' p = files s p)
     \<and> (files s' fp = files s fp \<or> files s' fp = None)"
  by (auto simp: maybe_unzip_def Let_def split: if_splits option.splits)

lemma os_replace_present:
  "files s src = Some b \<Longrightarrow> src \<noteq> dst \<Longrightarrow>
     os_replace src dst s = (Inr (), s\<lparr>files := (files s)(dst \<mapsto> b, src := None)\<rparr>)"
  by (simp add: os_replace_def)

lemma fetch_and_finish_files:
  assumes "fetch_and_finish e u aid out_dir unzip keep_zip s = (res, s')"
  shows "files s' (completed_path out_dir u) = files s (completed_path out_dir u)
     \<or> files s' (completed_path out_dir u) = None
     \<or> (reqs s < reqs s'
         \<and> (\<exists>r. requests_get e (reqs s' - 1) u = Inr r \<and> complete_download e u r
               \<and> files s' (completed_path out_dir u) = Some (concat (chunks r))))"
proof -
  let ?tmp = "in_progress_path out_dir u"
  let ?fin = "completed_path out_dir u"
  let ?cdir = "os_path_join out_dir ''completed''"
  obtain dres s1 where dl: "download_loop e u ?tmp 5 1 20 1 s = (dres, s1)"
    by (cases "download_loop e u ?tmp 5 1 20 1 s")
  from download_loop_files[OF dl] have fr:
    "reqs s < reqs s1" "\<forall>p. p \<noteq> ?tmp \<and> p \<noteq> ?tmp @ ''.part'' \<longrightarrow> files s1 p = files s p"
    "case dres of
           Inl x \<Rightarrow> files s1 ?tmp = files s ?tmp
         | Inr d \<Rightarrow> d = ?tmp
             \<and> (\<exists>r. requests_get e (reqs s1 - 1) u = Inr r \<and> complete_download e u r
                   \<and> files s1 ?tmp = Some (concat (chunks r)))"
    by auto
  have fin1: "files s1 ?fin = files s ?fin"
    using fr(2) completed_neq_in_progress[of out_dir u] by simp
  show ?thesis
  proof (cases dres)
    case (Inl x)
    then have "s' = s1" using assms dl
      by (simp add: fetch_and_finish_def download_with_retries_def Let_def)
    then show ?thesis using fin1 by simp
  next
    case (Inr d)
    then obtain r where d: "d = ?tmp" and r: "requests_get e (reqs s1 - 1) u = Inr r"
      "complete_download e u r" "files s1 ?tmp = Some (concat (chunks r))"
      using fr(3) by auto
    let ?s2 = "s1\<lparr>files := (files s1)(?fin \<mapsto> concat (chunks r), ?tmp := None)\<rparr>"
    have rep: "os_replace ?tmp ?fin s1 = (Inr (), ?s2)"
      using os_replace_present[OF r(3), of ?fin] completed_neq_in_progress(1)[of out_dir u]
      by simp
    have fin2: "files ?s2 ?fin = Some (concat (chunks r))" "reqs ?s2 = reqs s1"
      using completed_neq_in_progress(1)[of out_dir u] by simp_all
    show ?thesis
    proof (cases "unzip \<and> is_zip ?fin")
      case False
      then have "s' = ?s2" using assms dl Inr d rep
        by (auto simp: fetch_and_finish_def download_with_retries_def Let_def)
      then show ?thesis using fin2 fr(1) r by auto
    next
      case True
      obtain zres s3 where mz: "maybe_unzip e ?fin ?cdir keep_zip ?s2 = (zres, s3)"
        by (cases "maybe_unzip e ?fin ?cdir keep_zip ?s2")
      have "s' = s3" using assms dl Inr d rep True mz
        by (auto simp: fetch_and_finish_def download_with_retries_def Let_def split: sum.splits)
      moreover from maybe_unzip_frame[OF mz]
      have "reqs s3 = reqs ?s2" "files s3 ?fin = files ?s2 ?fin \<or> files s3 ?fin = None"
        by auto
      ultimately show ?thesis using fin2 fr(1) r by auto
    qed
  qed
qed

subsection \<open>The completed file\<close>

text \<open>
  C1. Whatever a download task does and however it ends, the file at the task's path in
  the completed directory is afterwards what it was before, or absent (removed after
  extraction when the archive is not kept), or the whole body of a response of this task
  whose status was accepted, whose stream ended without an exception and whose size is
  the one the URL names, if it names one. Bytes of a stream that breaks off are written
  to the \<open>.part\<close> file in the in-progress directory only, and that file is removed when
  the attempt fails; the completed path is reached by renaming alone.
\<close>

theorem completed_file_never_partial:
  "job e u aid out_dir unzip keep_zip s = (res, s')
   \<longrightarrow> files s' (completed_path out_dir u) = files s (completed_path out_dir u)
     \<or> files s' (completed_path out_dir u) = None
     \<or> (reqs s < reqs s'
         \<and> (\<exists>r. requests_get e (reqs s' - 1) u = Inr r \<and> complete_download e u r
               \<and> files s' (completed_path out_dir u) = Some (concat (chunks r))))"
proof
  assume j: "job e u aid out_dir unzip keep_zip s = (res, s')"
  let ?fin = "completed_path out_dir u"
  let ?cdir = "os_path_join out_dir ''completed''"
  let ?G = "\<lambda>s0. files s' ?fin = files s0 ?fin
     \<or> files s' ?fin = None
     \<or> (reqs s0 < reqs s'
         \<and> (\<exists>r. requests_get e (reqs s' - 1) u = Inr r \<and> complete_download e u r
               \<and> files s' ?fin = Some (concat (chunks r))))"
  show "?G s"
  proof (cases "already_complete e u ?fin s")
    case False
    then have "fetch_and_finish e u aid out_dir unzip keep_zip s = (res, s')"
      using j by (simp add: job_def Let_def)
    then show ?thesis by (rule fetch_and_finish_files)
  next
    case ac: True
    show ?thesis
    proof (cases "unzip \<and> is_zip ?fin")
      case False
      then have "s' = s" using j ac by (auto simp: job_def Let_def)
      then show ?thesis by simp
    next
      case True
      obtain zres s0 where mz: "maybe_unzip e ?fin ?cdir keep_zip s = (zres, s0)"
        by (cases "maybe_unzip e ?fin ?cdir keep_zip s")
      from maybe_unzip_frame[OF mz]
      have fr: "reqs s0 = reqs s" "files s0 ?fin = files s ?fin \<or> files s0 ?fin = None"
        by auto
      show ?thesis
      proof (cases zres)
        case (Inr ex)
        then have "s' = s0" using j ac True mz by (auto simp: job_def Let_def)
        then show ?thesis using fr by auto
      next
        case (Inl x)
        then have "fetch_and_finish e u aid out_dir unzip keep_zip s0 = (res, s')"
          using j ac True mz by (auto simp: job_def Let_def)
        from fetch_and_finish_files[OF this] have "?G s0" .
        then show ?thesis using fr by auto
      qed
    qed
  qed
qed


lemmas job_defs = job_def fetch_and_finish_def already_complete_def completed_path_def
  in_progress_path_def task_filename_def os_path_join_def os_path_basename_def is_zip_def
  endswith_def lower_def lower_char_def maybe_unzip_def splitext_root_def Let_def

theorem completed_file_never_partial_witness:
  "fst (job interrupted_env test_url ''A1'' ''out'' False True quiet_sys)
     = Inr \<lparr>r_archiveId = ''A1'', r_dest = ''out/completed/test.zip'', r_extracted_dir = None\<rparr>
   \<and> reqs (snd (job interrupted_env test_url ''A1'' ''out'' False True quiet_sys)) = 2
   \<and> files (snd (job interrupted_env test_url ''A1'' ''out'' False True quiet_sys))
        ''out/completed/test.zip'' = Some ''hello''
   \<and> files (snd (job interrupted_env test_url ''A1'' ''out'' False True quiet_sys))
        ''out/in_progress/test.zip.part'' = None
   \<and> complete_download interrupted_env test_url (body_response [''hel'', ''lo''])"
  using completed_file_never_partial[where e = interrupted_env and u = test_url
      and aid = "''A1''" and out_dir = "''out''" and unzip = False and keep_zip = True
      and s = quiet_sys, THEN mp, OF prod.collapse[symmetric]]
  by (simp add: interrupted_env_def body_response_def test_url_def env_defs run_defs job_defs
        complete_download_def)

subsection \<open>Skipping and resuming\<close>

lemma map_add_twice: "(m ++ n) ++ n = m ++ (n :: 'a \<rightharpoonup> 'b)"
  by (rule ext) (simp add: map_add_def split: option.splits)

lemma maybe_unzip_not_zip: "\<not> is_zip fp \<Longrightarrow> maybe_unzip e fp od kz s = (Inr None, s)"
  by (simp add: maybe_unzip_def)

lemma maybe_unzip_ok:
  assumes "is_zip fp" "files s (extract_dir_of od fp) = None" "files s fp = Some zf"
    and "zip_extractall e zf = Some members"
  shows "maybe_unzip e fp od kz s
     = (Inr (Some (extract_dir_of od fp)),
        s\<lparr>dirs := (dirs s)(extract_dir_of od fp \<mapsto> dir_members s (extract_dir_of od fp) ++ members),
          files := (if kz then files s else (files s)(fp := None))\<rparr>)"
  using assms by (simp add: maybe_unzip_def extract_dir_of_def dir_members_def Let_def)

lemma maybe_unzip_Inr:
  assumes "maybe_unzip e fp od kz s = (Inr ex, s1)" "is_zip fp"
  shows "\<exists>zf members. files s (extract_dir_of od fp) = None \<and> files s fp = Some zf
           \<and> zip_extractall e zf = Some members"
  using assms
  by (auto simp: maybe_unzip_def extract_dir_of_def Let_def split: if_splits option.splits)

lemma maybe_unzip_idem:
  assumes "maybe_unzip e fp od True s = (Inr ex, s1)"
  shows "maybe_unzip e fp od True s1 = (Inr ex, s1)"
proof (cases "is_zip fp")
  case False
  then show ?thesis using assms by (simp add: maybe_unzip_not_zip)
next
  case True
  let ?ed = "extract_dir_of od fp"
  from maybe_unzip_Inr[OF assms True] obtain zf members where
    h: "files s ?ed = None" "files s fp = Some zf" "zip_extractall e zf = Some members"
    by blast
  from maybe_unzip_ok[OF True h, of True] assms
  have s1: "s1 = s\<lparr>dirs := (dirs s)(?ed \<mapsto> dir_members s ?ed ++ members), files := files s\<rparr>"
    and ex: "ex = Some ?ed" by simp_all
  have h1: "files s1 ?ed = None" "files s1 fp = Some zf" using h s1 by simp_all
  have d1: "dirs s1 = (dirs s)(?ed \<mapsto> dir_members s ?ed ++ members)"
    using s1 by simp
  have dm: "dir_members s1 ?ed = dir_members s ?ed ++ members"
    using s1 by (simp add: dir_members_def)
  have "(dirs s1)(?ed \<mapsto> dir_members s1 ?ed ++ members) = dirs s1"
    by (simp add: dm d1 map_add_twice)
  then have "s1\<lparr>dirs := (dirs s1)(?ed \<mapsto> dir_members s1 ?ed ++ members),
               files := files s1\<rparr> = s1"
    by simp
  then show ?thesis
    using maybe_unzip_ok[OF True h1 h(3), of True] ex
    by simp
qed

lemma maybe_unzip_removes:
  assumes "maybe_unzip e fp od False s = (Inr ex, s1)" "is_zip fp"
  shows "files s1 fp = None"
  using assms
  by (auto simp: maybe_unzip_def Let_def split: if_splits option.splits)

lemma maybe_unzip_keeps:
  assumes "maybe_unzip e fp od True s = (res, s1)"
  shows "files s1 = files s"
  using assms
  by (auto simp: maybe_unzip_def Let_def split: if_splits option.splits)

lemma job_skip_plain:
  assumes "already_complete e u (completed_path out_dir u) s"
    and "\<not> (unzip \<and> is_zip (completed_path out_dir u))"
  shows "job e u aid out_dir unzip keep_zip s
     = (Inr \<lparr>r_archiveId = aid, r_dest = completed_path out_dir u, r_extracted_dir = None\<rparr>, s)"
  using assms by (auto simp: job_def Let_def)

lemma job_skip_unzip:
  assumes "already_complete e u (completed_path out_dir u) s"
    and "unzip" "is_zip (completed_path out_dir u)"
    and "maybe_unzip e (completed_path out_dir u) (os_path_join out_dir ''completed'') keep_zip s
           = (Inr ex, s1)"
  shows "job e u aid out_dir unzip keep_zip s
     = (Inr \<lparr>r_archiveId = aid, r_dest = completed_path out_dir u, r_extracted_dir = ex\<rparr>, s1)"
  using assms by (auto simp: job_def Let_def)

lemma fetch_and_finish_Inr:
  assumes ff: "fetch_and_finish e u aid out_dir unzip keep_zip s = (Inr r, s1)"
    and sz: "size_param e u = Some m"
    and ex: "files s1 (completed_path out_dir u) \<noteq> None"
  shows "job e u aid out_dir unzip keep_zip s1 = (Inr r, s1)"
proof -
  let ?tmp = "in_progress_path out_dir u"
  let ?fin = "completed_path out_dir u"
  let ?cdir = "os_path_join out_dir ''completed''"
  obtain dres s' where dl: "download_loop e u ?tmp 5 1 20 1 s = (dres, s')"
    by (cases "download_loop e u ?tmp 5 1 20 1 s")
  obtain d where dres: "dres = Inr d"
    using ff dl by (cases dres) (auto simp: fetch_and_finish_def download_with_retries_def Let_def)
  from download_loop_files[OF dl] dres obtain rr where d: "d = ?tmp"
    and rr: "complete_download e u rr" "files s' ?tmp = Some (concat (chunks rr))"
    by auto
  let ?body = "concat (chunks rr)"
  have len: "int (length ?body) = m" using rr(1) sz by (simp add: complete_download_def)
  let ?s2 = "s'\<lparr>files := (files s')(?fin \<mapsto> ?body, ?tmp := None)\<rparr>"
  have rep: "os_replace ?tmp ?fin s' = (Inr (), ?s2)"
    using os_replace_present[OF rr(2), of ?fin] completed_neq_in_progress(1)[of out_dir u]
    by simp
  have fin2: "files ?s2 ?fin = Some ?body"
    using completed_neq_in_progress(1)[of out_dir u] by simp
  show ?thesis
  proof (cases "unzip \<and> is_zip ?fin")
    case False
    then have r: "r = \<lparr>r_archiveId = aid, r_dest = ?fin, r_extracted_dir = None\<rparr>" and "s1 = ?s2"
      using ff dl dres d rep
      by (auto simp: fetch_and_finish_def download_with_retries_def Let_def)
    then have "already_complete e u ?fin s1"
      using fin2 len sz by (simp add: already_complete_def)
    from job_skip_plain[OF this False] show ?thesis using r by simp
  next
    case True
    obtain zres s3 where mz: "maybe_unzip e ?fin ?cdir keep_zip ?s2 = (zres, s3)"
      by (cases "maybe_unzip e ?fin ?cdir keep_zip ?s2")
    from ff dl dres d rep True mz obtain x where zres: "zres = Inr x"
      and r: "r = \<lparr>r_archiveId = aid, r_dest = ?fin, r_extracted_dir = x\<rparr>" and s13: "s1 = s3"
      by (cases zres) (auto simp: fetch_and_finish_def download_with_retries_def Let_def)
    have kz: keep_zip
    proof (rule ccontr)
      assume "\<not> keep_zip"
      then have "files s3 ?fin = None"
        using maybe_unzip_removes[of e ?fin ?cdir ?s2 x s3] mz zres True by simp
      then show False using ex s13 by simp
    qed
    have mz': "maybe_unzip e ?fin ?cdir True ?s2 = (Inr x, s1)" using mz zres kz s13 by simp
    have "files s1 = files ?s2" using maybe_unzip_keeps[OF mz'] .
    then have ac: "already_complete e u ?fin s1"
      using fin2 len sz by (simp add: already_complete_def)
    have "maybe_unzip e ?fin ?cdir keep_zip s1 = (Inr x, s1)"
      using maybe_unzip_idem[OF mz'] kz by simp
    from job_skip_unzip[OF ac _ _ this] True show ?thesis using r by simp
  qed
qed

lemma job_resume:
  assumes j: "job e u aid out_dir unzip keep_zip s = (Inr r, s1)"
    and sz: "size_param e u = Some m"
    and ex: "files s1 (completed_path out_dir u) \<noteq> None"
  shows "job e u aid out_dir unzip keep_zip s1 = (Inr r, s1)"
proof -
  let ?fin = "completed_path out_dir u"
  let ?cdir = "os_path_join out_dir ''completed''"
  show ?thesis
  proof (cases "already_complete e u ?fin s")
    case False
    then have "fetch_and_finish e u aid out_dir unzip keep_zip s = (Inr r, s1)"
      using j by (simp add: job_def Let_def)
    from fetch_and_finish_Inr[OF this sz ex] show ?thesis .
  next
    case ac: True
    show ?thesis
    proof (cases "unzip \<and> is_zip ?fin")
      case False
      from job_skip_plain[OF ac False, where aid = aid and keep_zip = keep_zip] j
      show ?thesis by simp
    next
      case True
      obtain zres s0 where mz: "maybe_unzip e ?fin ?cdir keep_zip s = (zres, s0)"
        by (cases "maybe_unzip e ?fin ?cdir keep_zip s")
      show ?thesis
      proof (cases zres)
        case (Inl x)
        then have "fetch_and_finish e u aid out_dir unzip keep_zip s0 = (Inr r, s1)"
          using j ac True mz by (auto simp: job_def Let_def)
        from fetch_and_finish_Inr[OF this sz ex] show ?thesis .
      next
        case (Inr x)
        with job_skip_unzip[OF ac _ _ mz[unfolded Inr], where aid = aid] True j
        have r: "r = \<lparr>r_archiveId = aid, r_dest = ?fin, r_extracted_dir = x\<rparr>" and s10: "s1 = s0"
          by simp_all
        have kz: keep_zip
        proof (rule ccontr)
          assume "\<not> keep_zip"
          then have "files s0 ?fin = None"
            using maybe_unzip_removes[of e ?fin ?cdir s x s0] mz Inr True by simp
          then show False using ex s10 by simp
        qed
        have mz': "maybe_unzip e ?fin ?cdir True s = (Inr x, s1)" using mz Inr kz s10 by simp
        have "files s1 = files s" using maybe_unzip_keeps[OF mz'] .
        then have ac1: "already_complete e u ?fin s1"
          using ac by (auto simp: already_complete_def split: option.splits)
        have "maybe_unzip e ?fin ?cdir keep_zip s1 = (Inr x, s1)"
          using maybe_unzip_idem[OF mz'] kz by simp
        from job_skip_unzip[OF ac1 _ _ this] True show ?thesis using r by simp
      qed
    qed
  qed
qed

text \<open>
  C3, as the code has it. A task whose URL names a size, and whose completed path holds a
  file of exactly that size, ends successfully without a request and without a sleep:
  at once when no extraction is due, and after extracting the archive again when
  \<open>unzip\<close> is set and the name ends in \<open>.zip\<close>, provided that extraction succeeds. Hence
  a task that has succeeded, whose URL names a size and whose completed file is still in
  place, succeeds again with the same result and leaves the whole state as it is: no
  request, no change to any file. (When the renewed extraction raises, the exception is
  swallowed and the file is downloaded anew.)
\<close>

theorem skip_if_complete:
  "(already_complete e u (completed_path out_dir u) s
      \<and> \<not> (unzip \<and> is_zip (completed_path out_dir u))
     \<longrightarrow> job e u aid out_dir unzip keep_zip s
           = (Inr \<lparr>r_archiveId = aid, r_dest = completed_path out_dir u,
                   r_extracted_dir = None\<rparr>, s))
   \<and> (already_complete e u (completed_path out_dir u) s
      \<and> unzip \<and> is_zip (completed_path out_dir u)
      \<and> files s (completed_path out_dir u) = Some zf \<and> zip_extractall e zf = Some members
      \<and> files s (extract_dir_of (os_path_join out_dir ''completed'') (completed_path out_dir u))
          = None
     \<longrightarrow> (\<exists>s1. job e u aid out_dir unzip keep_zip s
                 = (Inr \<lparr>r_archiveId = aid, r_dest = completed_path out_dir u,
                         r_extracted_dir =
                           Some (extract_dir_of (os_path_join out_dir ''completed'')
                                   (completed_path out_dir u))\<rparr>, s1)
               \<and> reqs s1 = reqs s \<and> slept s1 = slept s
               \<and> files s1 (completed_path out_dir u) = (if keep_zip then Some zf else None)))
   \<and> (job e u aid out_dir unzip keep_zip s = (Inr r, s') \<and> size_param e u = Some m
      \<and> files s' (completed_path out_dir u) \<noteq> None
     \<longrightarrow> job e u aid out_dir unzip keep_zip s' = (Inr r, s'))"
proof (intro conjI impI)
  assume "already_complete e u (completed_path out_dir u) s
      \<and> \<not> (unzip \<and> is_zip (completed_path out_dir u))"
  then show "job e u aid out_dir unzip keep_zip s
           = (Inr \<lparr>r_archiveId = aid, r_dest = completed_path out_dir u,
                   r_extracted_dir = None\<rparr>, s)"
    by (intro job_skip_plain) auto
next
  let ?fin = "completed_path out_dir u"
  let ?cdir = "os_path_join out_dir ''completed''"
  assume a: "already_complete e u ?fin s \<and> unzip \<and> is_zip ?fin
      \<and> files s ?fin = Some zf \<and> zip_extractall e zf = Some members
      \<and> files s (extract_dir_of ?cdir ?fin) = None"
  let ?s1 = "s\<lparr>dirs := (dirs s)(extract_dir_of ?cdir ?fin
                 \<mapsto> dir_members s (extract_dir_of ?cdir ?fin) ++ members),
               files := (if keep_zip then files s else (files s)(?fin := None))\<rparr>"
  have mz: "maybe_unzip e ?fin ?cdir keep_zip s = (Inr (Some (extract_dir_of ?cdir ?fin)), ?s1)"
    using a by (intro maybe_unzip_ok) auto
  have "job e u aid out_dir unzip keep_zip s
      = (Inr \<lparr>r_archiveId = aid, r_dest = ?fin,
              r_extracted_dir = Some (extract_dir_of ?cdir ?fin)\<rparr>, ?s1)"
    using a by (intro job_skip_unzip mz) auto
  moreover have "reqs ?s1 = reqs s" "slept ?s1 = slept s"
    "files ?s1 ?fin = (if keep_zip then Some zf else None)"
    using a by simp_all
  ultimately show "\<exists>s1. job e u aid out_dir unzip keep_zip s
                 = (Inr \<lparr>r_archiveId = aid, r_dest = ?fin,
                         r_extracted_dir = Some (extract_dir_of ?cdir ?fin)\<rparr>, s1)
               \<and> reqs s1 = reqs s \<and> slept s1 = slept s
               \<and> files s1 ?fin = (if keep_zip then Some zf else None)"
    by blast
next
  assume "job e u aid out_dir unzip keep_zip s = (Inr r, s') \<and> size_param e u = Some m
      \<and> files s' (completed_path out_dir u) \<noteq> None"
  then show "job e u aid out_dir unzip keep_zip s' = (Inr r, s')"
    using job_resume[of e u aid out_dir unzip keep_zip s r s' m] by simp
qed

theorem skip_if_complete_witness:
  "job unreachable_env test_url ''A1'' ''out'' False True
       (with_file ''out/completed/test.zip'' ''hello'')
     = (Inr \<lparr>r_archiveId = ''A1'', r_dest = ''out/completed/test.zip'', r_extracted_dir = None\<rparr>,
        with_file ''out/completed/test.zip'' ''hello'')
   \<and> fst (job interrupted_env test_url ''A1'' ''out'' False True quiet_sys)
     = Inr \<lparr>r_archiveId = ''A1'', r_dest = ''out/completed/test.zip'', r_extracted_dir = None\<rparr>
   \<and> job interrupted_env test_url ''A1'' ''out'' False True
       (snd (job interrupted_env test_url ''A1'' ''out'' False True quiet_sys))
     = job interrupted_env test_url ''A1'' ''out'' False True quiet_sys"
proof -
  let ?R = "\<lparr>r_archiveId = ''A1'', r_dest = ''out/completed/test.zip'', r_extracted_dir = None\<rparr>"
  let ?first = "job interrupted_env test_url ''A1'' ''out'' False True quiet_sys"
  have cp: "completed_path ''out'' test_url = ''out/completed/test.zip''"
    by (simp add: test_url_def job_defs)
  have c1: "job unreachable_env test_url ''A1'' ''out'' False True
       (with_file ''out/completed/test.zip'' ''hello'')
     = (Inr ?R, with_file ''out/completed/test.zip'' ''hello'')"
    using skip_if_complete[where e = unreachable_env and u = test_url and out_dir = "''out''"
        and s = "with_file ''out/completed/test.zip'' ''hello''" and unzip = False
        and aid = "''A1''" and keep_zip = True, THEN conjunct1]
    by (simp add: cp)
       (simp add: already_complete_def size_param_def test_url_def unreachable_env_def
          with_file_def env_defs)
  have ev: "fst ?first = Inr ?R
      \<and> files (snd ?first) (completed_path ''out'' test_url) \<noteq> None"
    by (simp add: interrupted_env_def body_response_def test_url_def env_defs run_defs job_defs)
  have sz: "size_param interrupted_env test_url = Some 5"
    by (simp add: size_param_def test_url_def interrupted_env_def env_defs)
  have first: "?first = (Inr ?R, snd ?first)"
    using ev by (simp add: prod_eq_iff)
  have c3: "job interrupted_env test_url ''A1'' ''out'' False True (snd ?first)
      = (Inr ?R, snd ?first)"
    using skip_if_complete[where e = interrupted_env and u = test_url and out_dir = "''out''"
        and s = quiet_sys and unzip = False and aid = "''A1''" and keep_zip = True
        and r = ?R and s' = "snd ?first" and m = 5, THEN conjunct2, THEN conjunct2, THEN mp]
      first sz ev
    by blast
  show ?thesis
    using c1 ev c3 first by simp
qed

text \<open>
  The completed path holds two bytes that are no archive, the URL names the size 2,
  \<open>unzip\<close> is set: the task requests the file from the network and replaces it.
\<close>

theorem skip_with_broken_archive_counterexample:
  "already_complete (serving_env (body_response [''PK''])) zip_url
      (completed_path ''out'' zip_url) (with_file ''out/completed/a.zip'' ''xx'')
   \<and> reqs (with_file ''out/completed/a.zip'' ''xx'') = 0
   \<and> reqs (snd (job (serving_env (body_response [''PK''])) zip_url ''A1'' ''out'' True True
                  (with_file ''out/completed/a.zip'' ''xx''))) = 1
   \<and> files (snd (job (serving_env (body_response [''PK''])) zip_url ''A1'' ''out'' True True
                   (with_file ''out/completed/a.zip'' ''xx''))) ''out/completed/a.zip''
       = Some ''PK''"
  by (simp add: serving_env_def body_response_def zip_url_def with_file_def env_defs run_defs
        job_defs)

subsection \<open>The status poller\<close>

lemma has_status_exclusive: "\<not> (has_status ''Available'' d \<and> has_status ''Queued'' d)"
  by (auto simp: has_status_def split: json.splits)

lemma has_status_not_null [simp]: "\<not> has_status st JNull"
  by (simp add: has_status_def)

lemma bucket_count:
  "length (filter (has_status ''Available'') ds) + length (filter (has_status ''Queued'') ds)
     + length (filter other_status ds) = length (filter (\<lambda>d. d \<noteq> JNull) ds)"
proof (induction ds)
  case Nil
  then show ?case by simp
next
  case (Cons d ds)
  then show ?case
    using has_status_exclusive[of d] by (cases "d = JNull") (auto simp: other_status_def)
qed

lemma filter_full: "(length (filter P xs) = length xs) = (\<forall>x \<in> set xs. P x)"
proof -
  have "length (filter P xs) + length (filter (\<lambda>x. \<not> P x) xs) = length xs"
    by (rule sum_length_filter_compl)
  then have "(length (filter P xs) = length xs) = (filter (\<lambda>x. \<not> P x) xs = [])"
    by auto
  then show ?thesis
    by (simp add: filter_empty_conv)
qed

lemma partitionedI:
  assumes "length ds = n" "ready b = filter (has_status ''Available'') ds"
    "queued b = filter (has_status ''Queued'') ds" "unknown b = filter other_status ds"
  shows "partitioned ds n b"
proof -
  have sum: "length (ready b) + length (queued b) + length (unknown b)
               = length (filter (\<lambda>d. d \<noteq> JNull) ds)"
    using assms bucket_count[of ds] by simp
  have le: "length (filter (\<lambda>d. d \<noteq> JNull) ds) \<le> n" using assms(1) by auto
  have "(length (filter (\<lambda>d. d \<noteq> JNull) ds) = n) = (JNull \<notin> set ds)"
    using filter_full[of "\<lambda>d. d \<noteq> JNull" ds] assms(1) by auto
  then show ?thesis using assms sum le by (simp add: partitioned_def)
qed

lemma bucket_of_Inr:
  assumes "bucket_of data b = Inr b1"
  shows "ready b1 = ready b @ filter (has_status ''Available'') [data]
     \<and> queued b1 = queued b @ filter (has_status ''Queued'') [data]
     \<and> unknown b1 = unknown b @ filter other_status [data]"
  using assms
  by (auto simp: bucket_of_def has_status_def other_status_def Let_def
           split: json.splits if_splits)

lemma get_items_loop_buckets:
  "get_items_loop e domain catalog xs b s = (Inr b', s') \<Longrightarrow>
     length (get_items_outcomes e domain catalog xs s) = length xs
     \<and> ready b' = ready b @ filter (has_status ''Available'') (get_items_outcomes e domain catalog xs s)
     \<and> queued b' = queued b @ filter (has_status ''Queued'') (get_items_outcomes e domain catalog xs s)
     \<and> unknown b' = unknown b @ filter other_status (get_items_outcomes e domain catalog xs s)"
proof (induction xs arbitrary: b s)
  case Nil
  then show ?case by simp
next
  case (Cons x xs)
  from Cons.prems obtain c a where k: "x ''collectionId'' = Some c" "x ''archiveId'' = Some a"
    by (auto split: option.splits)
  obtain gres s1 where g: "get_item e domain c a catalog s = (gres, s1)"
    by (cases "get_item e domain c a catalog s")
  from Cons.prems k g obtain data where d: "gres = Inr data"
    by (cases gres) auto
  have out: "get_items_outcomes e domain catalog (x # xs) s
               = data # get_items_outcomes e domain catalog xs s1"
    using k g d by simp
  show ?case
  proof (cases "data = JNull")
    case True
    then have "get_items_loop e domain catalog xs b s1 = (Inr b', s')"
      using Cons.prems k g d by simp
    from Cons.IH[OF this] show ?thesis using out True by (simp add: other_status_def)
  next
    case False
    from Cons.prems k g d False obtain b1 where b1: "bucket_of data b = Inr b1"
      and loop: "get_items_loop e domain catalog xs b1 s1 = (Inr b', s')"
      by (cases "bucket_of data b") auto
    from Cons.IH[OF loop] bucket_of_Inr[OF b1] show ?thesis using out by simp
  qed
qed

lemma get_items_from_results_loop_buckets:
  "get_items_from_results_loop e domain catalog xs b s = (Inr b', s') \<Longrightarrow>
     length (get_items_from_results_outcomes e domain catalog xs s) = length xs
     \<and> ready b' = ready b
          @ filter (has_status ''Available'') (get_items_from_results_outcomes e domain catalog xs s)
     \<and> queued b' = queued b
          @ filter (has_status ''Queued'') (get_items_from_results_outcomes e domain catalog xs s)
     \<and> unknown b' = unknown b
          @ filter other_status (get_items_from_results_outcomes e domain catalog xs s)"
proof (induction xs arbitrary: b s)
  case Nil
  then show ?case by simp
next
  case (Cons x xs)
  show ?case
  proof (cases "resolve_ids e x")
    case None
    then have "get_items_from_results_loop e domain catalog xs b s = (Inr b', s')"
      using Cons.prems by simp
    from Cons.IH[OF this] show ?thesis using None by (simp add: other_status_def)
  next
    case (Some ids)
    obtain c a where ids: "ids = (c, a)" by (cases ids)
    obtain gres s1 where g: "get_item e domain c a catalog s = (gres, s1)"
      by (cases "get_item e domain c a catalog s")
    from Cons.prems Some ids g obtain data where d: "gres = Inr data"
      by (cases gres) auto
    have out: "get_items_from_results_outcomes e domain catalog (x # xs) s
                 = data # get_items_from_results_outcomes e domain catalog xs s1"
      using Some ids g d by simp
    show ?thesis
    proof (cases "data = JNull")
      case True
      then have "get_items_from_results_loop e domain catalog xs b s1 = (Inr b', s')"
        using Cons.prems Some ids g d by simp
      from Cons.IH[OF this] show ?thesis using out True by (simp add: other_status_def)
    next
      case False
      from Cons.prems Some ids g d False obtain b1 where b1: "bucket_of data b = Inr b1"
        and loop: "get_items_from_results_loop e domain catalog xs b1 s1 = (Inr b', s')"
        by (cases "bucket_of data b") auto
      from Cons.IH[OF loop] bucket_of_Inr[OF b1] show ?thesis using out by simp
    qed
  qed
qed

text \<open>
  C2. When either entry point of the poller returns its buckets, every item of the input
  has an outcome, the buckets \<open>ready\<close>, \<open>queued\<close> and \<open>unknown\<close> hold exactly the fetched
  records whose status is \<open>Available\<close>, \<open>Queued\<close> and anything else, each record once
  and in the order of the input, and a dropped item is in none of them. So the three
  lengths add up to the number of items that were not dropped, which is at most the
  length of the input and equal to it exactly when nothing was dropped.
\<close>

theorem buckets_partition_fetched:
  "(get_items e domain entries catalog s = (Inr b, s')
     \<longrightarrow> partitioned (get_items_outcomes e domain catalog entries s) (length entries) b)
   \<and> (get_items_from_results e domain results catalog s = (Inr b, s')
     \<longrightarrow> partitioned (get_items_from_results_outcomes e domain catalog results s)
           (length results) b)"
proof (intro conjI impI)
  assume "get_items e domain entries catalog s = (Inr b, s')"
  then have "get_items_loop e domain catalog entries no_buckets s = (Inr b, s')"
    by (simp add: get_items_def)
  from get_items_loop_buckets[OF this]
  show "partitioned (get_items_outcomes e domain catalog entries s) (length entries) b"
    by (intro partitionedI) (simp_all add: no_buckets_def)
next
  assume "get_items_from_results e domain results catalog s = (Inr b, s')"
  then have "get_items_from_results_loop e domain catalog results no_buckets s = (Inr b, s')"
    by (simp add: get_items_from_results_def)
  from get_items_from_results_loop_buckets[OF this]
  show "partitioned (get_items_from_results_outcomes e domain catalog results s)
          (length results) b"
    by (intro partitionedI) (simp_all add: no_buckets_def)
qed


lemmas poll_defs = get_items_def get_items_from_results_def get_item_def item_url_def
  bucket_of_def no_buckets_def resolve_ids_def

theorem buckets_partition_fetched_witness:
  "fst (get_items catalog_env ''dom''
          [entry ''RCM'' ''a1'', entry ''RCM'' ''a2'', entry ''RCM'' ''a3'', entry ''RCM'' ''a4'']
          ''EODMS'' quiet_sys)
     = Inr \<lparr>ready = [JObj [(''status'', JStr ''Available'')]],
            queued = [JObj [(''status'', JStr ''Queued'')]],
            unknown = [JObj [(''status'', JStr ''Processing'')]]\<rparr>
   \<and> partitioned
        [JObj [(''status'', JStr ''Available'')], JObj [(''status'', JStr ''Queued'')], JNull,
         JObj [(''status'', JStr ''Processing'')]]
        4
        \<lparr>ready = [JObj [(''status'', JStr ''Available'')]],
         queued = [JObj [(''status'', JStr ''Queued'')]],
         unknown = [JObj [(''status'', JStr ''Processing'')]]\<rparr>
   \<and> fst (get_items_from_results catalog_env ''dom'' [unresolved_result, resolved_result]
          ''EODMS'' quiet_sys)
     = Inr \<lparr>ready = [JObj [(''status'', JStr ''Available'')]], queued = [], unknown = []\<rparr>
   \<and> partitioned [JNull, JObj [(''status'', JStr ''Available'')]] 2
        \<lparr>ready = [JObj [(''status'', JStr ''Available'')]], queued = [], unknown = []\<rparr>"
proof -
  let ?es = "[entry ''RCM'' ''a1'', entry ''RCM'' ''a2'', entry ''RCM'' ''a3'', entry ''RCM'' ''a4'']"
  let ?A = "JObj [(''status'', JStr ''Available'')]"
  let ?Q = "JObj [(''status'', JStr ''Queued'')]"
  let ?W = "JObj [(''status'', JStr ''Processing'')]"
  let ?B = "\<lparr>ready = [?A], queued = [?Q], unknown = [?W]\<rparr>"
  let ?B2 = "\<lparr>ready = [?A], queued = [], unknown = []\<rparr>"
  let ?run = "get_items catalog_env ''dom'' ?es ''EODMS'' quiet_sys"
  let ?run2 = "get_items_from_results catalog_env ''dom'' [unresolved_result, resolved_result]
                 ''EODMS'' quiet_sys"
  have ev: "fst ?run = Inr ?B"
    by (simp add: catalog_env_def item_response_def entry_def env_defs run_defs poll_defs)
  have out: "get_items_outcomes catalog_env ''dom'' ''EODMS'' ?es quiet_sys = [?A, ?Q, JNull, ?W]"
    by (simp add: catalog_env_def item_response_def entry_def env_defs run_defs poll_defs)
  have ev2: "fst ?run2 = Inr ?B2"
    by (simp add: catalog_env_def item_response_def unresolved_result_def resolved_result_def
          env_defs run_defs poll_defs)
  have out2: "get_items_from_results_outcomes catalog_env ''dom'' ''EODMS''
                [unresolved_result, resolved_result] quiet_sys = [JNull, ?A]"
    by (simp add: catalog_env_def item_response_def unresolved_result_def resolved_result_def
          env_defs run_defs poll_defs)
  have len: "length ?es = 4" and len2: "length [unresolved_result, resolved_result] = 2"
    by simp_all
  have r1: "?run = (Inr ?B, snd ?run)" using ev by (simp add: prod_eq_iff)
  have r2: "?run2 = (Inr ?B2, snd ?run2)" using ev2 by (simp add: prod_eq_iff)
  have p1: "partitioned [?A, ?Q, JNull, ?W] 4 ?B"
    using buckets_partition_fetched[where e = catalog_env and domain = "''dom''"
        and entries = ?es and catalog = "''EODMS''" and s = quiet_sys and b = ?B
        and s' = "snd ?run", THEN conjunct1, THEN mp, OF r1, unfolded out len]
    .
  have p2: "partitioned [JNull, ?A] 2 ?B2"
    using buckets_partition_fetched[where e = catalog_env and domain = "''dom''"
        and results = "[unresolved_result, resolved_result]" and catalog = "''EODMS''"
        and s = quiet_sys and b = ?B2 and s' = "snd ?run2", THEN conjunct2, THEN mp, OF r2,
        unfolded out2 len2]
    .
  show ?thesis
    using ev p1 ev2 p2 by simp
qed

subsection \<open>The persistence shadow\<close>

lemma enabled_disabled [simp]: "\<not> enabled disabled"
  by (simp add: disabled_def)

lemma rcmdb_init_cases:
  "rcmdb_init disk db_path = disabled
   \<or> (\<exists>p d. db_path = Some p \<and> p \<noteq> [] \<and> disk p = Some (Database d)
         \<and> subset_present d ''queries'' EXPECTED_QUERY_COLS
         \<and> subset_present d ''downloads'' EXPECTED_DL_COLS
         \<and> rcmdb_init disk db_path = \<lparr>enabled = True, conn = Some d\<rparr>)"
  by (auto simp: rcmdb_init_def split: option.splits sqlite_file.splits)

text \<open>
  C5, as the code has it. Opening the shadow gives an enabled handle exactly when a
  non-empty path is given, a database is found there and can be read, and each of the two
  expected column sets is contained in the columns of its table. A store whose tables
  have exactly the expected columns is enabled (and so is one with further columns); a
  store that lacks one expected column is disabled, and on a disabled handle every mark
  operation leaves everything as it is.
\<close>

theorem schema_gate:
  "(enabled (rcmdb_init disk db_path)
      = (\<exists>p d. db_path = Some p \<and> p \<noteq> [] \<and> disk p = Some (Database d)
           \<and> set EXPECTED_QUERY_COLS \<subseteq> set (table_columns d ''queries'')
           \<and> set EXPECTED_DL_COLS \<subseteq> set (table_columns d ''downloads'')))
   \<and> (p \<noteq> [] \<and> disk p = Some (Database d)
      \<and> set (table_columns d ''queries'') = set EXPECTED_QUERY_COLS
      \<and> set (table_columns d ''downloads'') = set EXPECTED_DL_COLS
     \<longrightarrow> rcmdb_init disk (Some p) = \<lparr>enabled = True, conn = Some d\<rparr>)
   \<and> (disk p = Some (Database d)
      \<and> ((c \<in> set EXPECTED_QUERY_COLS \<and> c \<notin> set (table_columns d ''queries''))
          \<or> (c \<in> set EXPECTED_DL_COLS \<and> c \<notin> set (table_columns d ''downloads'')))
     \<longrightarrow> rcmdb_init disk (Some p) = disabled)
   \<and> (\<not> enabled h
     \<longrightarrow> mark_in_progress lib now h pid qid meta path = h
        \<and> mark_success lib now fs h pid qid path meta = h
        \<and> mark_failed lib now h pid qid path meta = h)"
proof (intro conjI impI)
  show "enabled (rcmdb_init disk db_path)
      = (\<exists>p d. db_path = Some p \<and> p \<noteq> [] \<and> disk p = Some (Database d)
           \<and> set EXPECTED_QUERY_COLS \<subseteq> set (table_columns d ''queries'')
           \<and> set EXPECTED_DL_COLS \<subseteq> set (table_columns d ''downloads''))"
    by (auto simp: rcmdb_init_def subset_present_def split: option.splits sqlite_file.splits)
next
  assume "p \<noteq> [] \<and> disk p = Some (Database d)
      \<and> set (table_columns d ''queries'') = set EXPECTED_QUERY_COLS
      \<and> set (table_columns d ''downloads'') = set EXPECTED_DL_COLS"
  then show "rcmdb_init disk (Some p) = \<lparr>enabled = True, conn = Some d\<rparr>"
    by (simp add: rcmdb_init_def subset_present_def)
next
  assume "disk p = Some (Database d)
      \<and> ((c \<in> set EXPECTED_QUERY_COLS \<and> c \<notin> set (table_columns d ''queries''))
          \<or> (c \<in> set EXPECTED_DL_COLS \<and> c \<notin> set (table_columns d ''downloads'')))"
  then show "rcmdb_init disk (Some p) = disabled"
    by (auto simp: rcmdb_init_def subset_present_def)
next
  assume "\<not> enabled h"
  then show "mark_in_progress lib now h pid qid meta path = h"
    by (simp add: mark_in_progress_def)
next
  assume "\<not> enabled h"
  then show "mark_success lib now fs h pid qid path meta = h"
    by (simp add: mark_success_def)
next
  assume "\<not> enabled h"
  then show "mark_failed lib now h pid qid path meta = h"
    by (simp add: mark_failed_def)
qed

lemmas gate_defs = rcmdb_init_def subset_present_def table_columns_def store_with_def
  EXPECTED_QUERY_COLS_def EXPECTED_DL_COLS_def SPEC_DL_COLS_def disabled_def

theorem schema_gate_witness:
  "rcmdb_init [''rcm.db'' \<mapsto> Database (store_with EXPECTED_QUERY_COLS EXPECTED_DL_COLS)]
       (Some ''rcm.db'')
     = \<lparr>enabled = True, conn = Some (store_with EXPECTED_QUERY_COLS EXPECTED_DL_COLS)\<rparr>
   \<and> enabled (rcmdb_init
        [''rcm.db'' \<mapsto> Database (store_with (''note'' # EXPECTED_QUERY_COLS) EXPECTED_DL_COLS)]
        (Some ''rcm.db''))
   \<and> rcmdb_init [''rcm.db'' \<mapsto> Database (store_with EXPECTED_QUERY_COLS (tl EXPECTED_DL_COLS))]
       (Some ''rcm.db'')
     = disabled"
proof -
  let ?d = "store_with EXPECTED_QUERY_COLS EXPECTED_DL_COLS"
  let ?d3 = "store_with EXPECTED_QUERY_COLS (tl EXPECTED_DL_COLS)"
  have c1: "rcmdb_init [''rcm.db'' \<mapsto> Database ?d] (Some ''rcm.db'')
               = \<lparr>enabled = True, conn = Some ?d\<rparr>"
    by (rule schema_gate[THEN conjunct2, THEN conjunct1, THEN mp])
       (simp add: table_columns_def store_with_def)
  have c2: "enabled (rcmdb_init
        [''rcm.db'' \<mapsto> Database (store_with (''note'' # EXPECTED_QUERY_COLS) EXPECTED_DL_COLS)]
        (Some ''rcm.db''))"
    by (simp add: gate_defs)
  have c3: "rcmdb_init [''rcm.db'' \<mapsto> Database ?d3] (Some ''rcm.db'') = disabled"
    by (rule schema_gate[where c = "''product_id''" and d = ?d3, THEN conjunct2,
          THEN conjunct2, THEN conjunct1, THEN mp])
       (simp add: table_columns_def store_with_def EXPECTED_DL_COLS_def)
  show ?thesis
    by (intro conjI c1 c2 c3)
qed

text \<open>
  A store whose \<open>downloads\<close> table has exactly the columns the specification lists,
  \<open>acquisition_time\<close> among them, is disabled: the expected set names that column
  \<open>acqusition_time\<close>.
\<close>

theorem spec_schema_disabled_counterexample:
  "\<not> enabled (rcmdb_init [''rcm.db'' \<mapsto> Database (store_with EXPECTED_QUERY_COLS SPEC_DL_COLS)]
        (Some ''rcm.db''))"
  by (simp add: gate_defs)

lemma upsert_pids:
  assumes "\<And>r x. product_id (f r x) = product_id r"
    and "product_id new \<in> set (map product_id rows)"
  shows "map product_id (upsert new f rows) = map product_id rows"
  using assms by (auto simp: upsert_def)

lemma upsert_distinct:
  assumes "\<And>r x. product_id (f r x) = product_id r" and "distinct (map product_id rows)"
  shows "distinct (map product_id (upsert new f rows))"
proof (cases "product_id new \<in> set (map product_id rows)")
  case True
  then show ?thesis using upsert_pids[OF assms(1) True] assms(2) by simp
next
  case False
  then show ?thesis using assms(2) by (auto simp: upsert_def)
qed

lemma rows_of_execute_upsert:
  "rows_of (execute_upsert h new f) = rows_of h
   \<or> rows_of (execute_upsert h new f) = upsert new f (rows_of h)"
  by (auto simp: execute_upsert_def rows_of_def split: option.splits)

lemma execute_upsert_invariant:
  assumes "\<And>r x. product_id (f r x) = product_id r" and "one_row_per_product h"
  shows "one_row_per_product (execute_upsert h new f)"
  using rows_of_execute_upsert[of h new f] upsert_distinct[OF assms(1), of "rows_of h" new] assms(2)
  by (auto simp: one_row_per_product_def)

lemma set_keeps_product_id [simp]:
  "product_id (set_in_progress now r x) = product_id r"
  "product_id (set_completed now r x) = product_id r"
  "product_id (set_failed now r x) = product_id r"
  by (simp_all add: set_in_progress_def set_completed_def set_failed_def)

lemma mark_in_progress_invariant:
  "one_row_per_product h \<Longrightarrow> one_row_per_product (mark_in_progress lib now h pid qid meta path)"
  by (auto simp: mark_in_progress_def intro!: execute_upsert_invariant split: option.splits)

lemma mark_success_invariant:
  "one_row_per_product h \<Longrightarrow> one_row_per_product (mark_success lib now fs h pid qid path meta)"
  by (auto simp: mark_success_def Let_def intro!: execute_upsert_invariant split: option.splits)

lemma mark_failed_invariant:
  "one_row_per_product h \<Longrightarrow> one_row_per_product (mark_failed lib now h pid qid path meta)"
  by (auto simp: mark_failed_def intro!: execute_upsert_invariant split: option.splits)

lemma apply_mark_invariant:
  "one_row_per_product h \<Longrightarrow> one_row_per_product (apply_mark lib fs h op)"
  by (cases op)
     (simp_all add: mark_in_progress_invariant mark_success_invariant mark_failed_invariant)

lemma marks_invariant:
  "one_row_per_product h \<Longrightarrow> one_row_per_product (foldl (apply_mark lib fs) h ops)"
  by (induction ops arbitrary: h) (simp_all add: apply_mark_invariant)

lemma filter_updated:
  assumes "\<And>r. product_id (g r) = product_id r"
  shows "distinct (map product_id rows) \<Longrightarrow> p \<in> set (map product_id rows) \<Longrightarrow>
     \<exists>old. old \<in> set rows \<and> product_id old = p
       \<and> filter (\<lambda>x. product_id x = p) (map (\<lambda>r. if product_id r = p then g r else r) rows)
           = [g old]"
proof (induction rows)
  case Nil
  then show ?case by simp
next
  case (Cons x xs)
  show ?case
  proof (cases "product_id x = p")
    case True
    then have "p \<notin> set (map product_id xs)" using Cons.prems(1) by auto
    then have ne: "\<And>r. r \<in> set xs \<Longrightarrow> product_id r \<noteq> p" by force
    have "filter (\<lambda>x. product_id x = p) (map (\<lambda>r. if product_id r = p then g r else r) xs) = []"
      by (simp add: filter_empty_conv ne)
    then show ?thesis using True assms by (intro exI[of _ x]) simp
  next
    case False
    then have "p \<in> set (map product_id xs)" using Cons.prems(2) by auto
    from Cons.IH[OF _ this] Cons.prems(1) obtain old where
      "old \<in> set xs" "product_id old = p"
      "filter (\<lambda>x. product_id x = p) (map (\<lambda>r. if product_id r = p then g r else r) xs) = [g old]"
      by auto
    then show ?thesis using False by (intro exI[of _ old]) simp
  qed
qed

lemma upsert_single:
  assumes "\<And>r x. product_id (f r x) = product_id r" and "distinct (map product_id rows)"
    and "\<And>old. status (f old new) = Text st" and "status new = Text st"
  shows "\<exists>r. filter (\<lambda>x. product_id x = product_id new) (upsert new f rows) = [r]
           \<and> status r = Text st"
proof (cases "product_id new \<in> set (map product_id rows)")
  case True
  from filter_updated[of "\<lambda>r. f r new" rows "product_id new", OF assms(1) assms(2) True]
  obtain old where
    "filter (\<lambda>x. product_id x = product_id new)
       (map (\<lambda>r. if product_id r = product_id new then f r new else r) rows) = [f old new]"
    by blast
  then show ?thesis using True assms(3) by (simp add: upsert_def)
next
  case False
  have "\<And>r. r \<in> set rows \<Longrightarrow> product_id r \<noteq> product_id new"
  proof
    fix r
    assume "r \<in> set rows" "product_id r = product_id new"
    then have "product_id new \<in> set (map product_id rows)"
      by (metis imageI set_map)
    with False show False ..
  qed
  then have "filter (\<lambda>x. product_id x = product_id new) rows = []"
    by (simp add: filter_empty_conv)
  then show ?thesis using False assms(4) by (simp add: upsert_def)
qed

lemma mark_in_progress_keeps_conn:
  assumes "enabled h" "conn h = Some d" "product_id_unique d"
  shows "enabled (mark_in_progress lib now h pid qid meta path)
     \<and> (\<exists>d'. conn (mark_in_progress lib now h pid qid meta path) = Some d'
            \<and> product_id_unique d')"
  using assms by (auto simp: mark_in_progress_def execute_upsert_def split: option.splits)

lemma values_row_simps [simp]:
  "product_id (values_row pid qid bm st acq pub lat coords path size_mb cks now) = pid"
  "status (values_row pid qid bm st acq pub lat coords path size_mb cks now) = Text st"
  "file_path (values_row pid qid bm st acq pub lat coords path size_mb cks now) = Text path"
  by (simp_all add: values_row_def)

lemma mark_success_rows:
  assumes "enabled h" "conn h = Some d" "product_id_unique d" "bind_meta lib meta = Some bm"
  shows "\<exists>new. product_id new = pid \<and> status new = Text ''completed''
     \<and> rows_of (mark_success lib now fs h pid qid path meta)
         = upsert new (set_completed now) (rows_of h)"
proof -
  obtain new where new: "mark_success lib now fs h pid qid path meta
      = execute_upsert h new (set_completed now)"
    "product_id new = pid" "status new = Text ''completed''"
    using assms(1,4) by (simp add: mark_success_def Let_def)
  have "rows_of (execute_upsert h new (set_completed now))
          = upsert new (set_completed now) (rows_of h)"
    using assms(2,3) by (simp add: execute_upsert_def rows_of_def)
  then show ?thesis using new by auto
qed

text \<open>
  C9. Every mark operation is an upsert keyed by the product id, so any sequence of mark
  operations keeps the table at one row per \<open>product_id\<close> at most. On an enabled handle
  whose table declares the key unique, \<open>mark_in_progress\<close> followed by \<open>mark_success\<close>
  for the same product id, the latter with parameters that SQLite can bind, leaves
  exactly one row for that id, and its status is \<open>completed\<close>.
\<close>

theorem upsert_one_row_per_product:
  "(one_row_per_product h \<longrightarrow> one_row_per_product (foldl (apply_mark lib fs) h ops))
   \<and> (enabled h \<and> conn h = Some d \<and> product_id_unique d \<and> one_row_per_product h
      \<and> bind_meta lib meta' = Some bm
     \<longrightarrow> (\<exists>r. rows_for (mark_success lib now' fs
                   (mark_in_progress lib now h pid qid meta path) pid qid' path' meta') pid = [r]
             \<and> status r = Text ''completed''))"
proof (intro conjI impI)
  assume "one_row_per_product h"
  then show "one_row_per_product (foldl (apply_mark lib fs) h ops)"
    by (rule marks_invariant)
next
  assume a: "enabled h \<and> conn h = Some d \<and> product_id_unique d \<and> one_row_per_product h
      \<and> bind_meta lib meta' = Some bm"
  let ?h1 = "mark_in_progress lib now h pid qid meta path"
  from a mark_in_progress_keeps_conn[of h d lib now pid qid meta path]
  obtain d1 where h1: "enabled ?h1" "conn ?h1 = Some d1" "product_id_unique d1" by auto
  have inv1: "one_row_per_product ?h1" using a by (simp add: mark_in_progress_invariant)
  from mark_success_rows[OF h1, of lib meta' bm pid now' fs qid' path'] a
  obtain new where new: "product_id new = pid" "status new = Text ''completed''"
    "rows_of (mark_success lib now' fs ?h1 pid qid' path' meta')
       = upsert new (set_completed now') (rows_of ?h1)"
    by auto
  have "\<exists>r. filter (\<lambda>x. product_id x = product_id new)
               (upsert new (set_completed now') (rows_of ?h1)) = [r]
           \<and> status r = Text ''completed''"
    using inv1 new(2)
    by (intro upsert_single) (simp_all add: one_row_per_product_def set_completed_def)
  then show "\<exists>r. rows_for (mark_success lib now' fs ?h1 pid qid' path' meta') pid = [r]
             \<and> status r = Text ''completed''"
    using new by (simp add: rows_for_def)
qed


lemmas db_defs = mark_in_progress_def mark_success_def mark_failed_def execute_upsert_def
  upsert_def bind_meta_def meta_get_def meta_get_default_def to_iso_def json_dumps_safe_def
  latency_minutes_def bind_query_id_def set_in_progress_def set_completed_def set_failed_def
  rows_of_def rows_for_def open_db_def store_with_def plain_lib_def one_row_per_product_def

theorem upsert_one_row_per_product_witness:
  "one_row_per_product
     (foldl (apply_mark plain_lib Map.empty) (open_db [])
        [MarkInProgress ''t1'' ''P1'' None Map.empty ''out/completed/a.zip'',
         MarkFailed ''t2'' ''P1'' None ''out/completed/a.zip'' Map.empty,
         MarkInProgress ''t3'' ''P2'' None Map.empty ''out/completed/b.zip''])
   \<and> (\<exists>r. rows_for
            (mark_success plain_lib ''t2'' Map.empty
               (mark_in_progress plain_lib ''t1'' (open_db []) ''P1'' None Map.empty
                  ''out/completed/a.zip'')
               ''P1'' None ''out/completed/a.zip'' Map.empty)
            ''P1'' = [r]
          \<and> status r = Text ''completed'')"
proof -
  let ?d = "(store_with EXPECTED_QUERY_COLS EXPECTED_DL_COLS)\<lparr>downloads := []\<rparr>"
  let ?bm = "\<lparr>b_constellation = Text ''RCM'', b_sensor_mode = Null, b_product_type = Null,
        b_processing_level = Null, b_latitude = Null, b_longitude = Null, b_name = Null,
        b_quicklook = Null\<rparr>"
  have pre: "enabled (open_db []) \<and> conn (open_db []) = Some ?d \<and> product_id_unique ?d
      \<and> one_row_per_product (open_db []) \<and> bind_meta plain_lib Map.empty = Some ?bm"
    by (simp add: db_defs)
  have inv: "one_row_per_product (open_db [])"
    using pre by simp
  note T = upsert_one_row_per_product[where lib = plain_lib and fs = Map.empty
      and h = "open_db []" and d = ?d and meta' = Map.empty and bm = ?bm]
  show ?thesis
    using T[THEN conjunct1, THEN mp, OF inv] T[THEN conjunct2, THEN mp, OF pre]
    by blast
qed

text \<open>
  C10. When \<open>mark_in_progress\<close> is called for a product id that has a row, the table
  afterwards is the table before with, in the rows of that id, the columns \<open>status\<close>,
  \<open>file_path\<close> and \<open>updated_at\<close> set anew and every other column as it was (or the
  table is untouched, where the statement is not executed); the rows of other ids are as
  they were. On an enabled handle with a unique key and bindable parameters the update
  takes place.
\<close>

theorem mark_in_progress_frame:
  "(pid \<in> set (map product_id (rows_of h))
     \<longrightarrow> rows_of (mark_in_progress lib now h pid qid meta path) = rows_of h
       \<or> rows_of (mark_in_progress lib now h pid qid meta path)
           = map (\<lambda>r. if product_id r = pid
                       then r\<lparr>status := Text ''in_progress'', file_path := Text path,
                              updated_at := Text now\<rparr>
                       else r) (rows_of h))
   \<and> (pid \<in> set (map product_id (rows_of h)) \<and> enabled h \<and> conn h = Some d
      \<and> product_id_unique d \<and> bind_meta lib meta = Some bm
     \<longrightarrow> rows_of (mark_in_progress lib now h pid qid meta path)
           = map (\<lambda>r. if product_id r = pid
                       then r\<lparr>status := Text ''in_progress'', file_path := Text path,
                              updated_at := Text now\<rparr>
                       else r) (rows_of h))"
proof (intro conjI impI)
  assume "pid \<in> set (map product_id (rows_of h))"
  then show "rows_of (mark_in_progress lib now h pid qid meta path) = rows_of h
       \<or> rows_of (mark_in_progress lib now h pid qid meta path)
           = map (\<lambda>r. if product_id r = pid
                       then r\<lparr>status := Text ''in_progress'', file_path := Text path,
                              updated_at := Text now\<rparr>
                       else r) (rows_of h)"
    by (auto simp: mark_in_progress_def execute_upsert_def upsert_def rows_of_def
          set_in_progress_def split: option.splits)
next
  assume "pid \<in> set (map product_id (rows_of h)) \<and> enabled h \<and> conn h = Some d
      \<and> product_id_unique d \<and> bind_meta lib meta = Some bm"
  then show "rows_of (mark_in_progress lib now h pid qid meta path)
           = map (\<lambda>r. if product_id r = pid
                       then r\<lparr>status := Text ''in_progress'', file_path := Text path,
                              updated_at := Text now\<rparr>
                       else r) (rows_of h)"
    by (auto simp: mark_in_progress_def execute_upsert_def upsert_def rows_of_def
          set_in_progress_def)
qed

theorem mark_in_progress_frame_witness:
  "rows_of (mark_in_progress plain_lib ''t9'' (open_db [old_row]) ''P1'' None
             [''sensor_mode'' \<mapsto> PJ (JStr ''XX'')] ''new/path'')
     = [old_row\<lparr>status := Text ''in_progress'', file_path := Text ''new/path'',
                updated_at := Text ''t9''\<rparr>]
   \<and> sensor_mode (old_row\<lparr>status := Text ''in_progress'', file_path := Text ''new/path'',
                updated_at := Text ''t9''\<rparr>) = Text ''SC30''
   \<and> created_at (old_row\<lparr>status := Text ''in_progress'', file_path := Text ''new/path'',
                updated_at := Text ''t9''\<rparr>) = Text ''t0''"
proof -
  let ?d = "(store_with EXPECTED_QUERY_COLS EXPECTED_DL_COLS)\<lparr>downloads := [old_row]\<rparr>"
  let ?bm = "\<lparr>b_constellation = Text ''RCM'', b_sensor_mode = Text ''XX'', b_product_type = Null,
        b_processing_level = Null, b_latitude = Null, b_longitude = Null, b_name = Null,
        b_quicklook = Null\<rparr>"
  have pid: "product_id old_row = ''P1''"
    by (simp add: old_row_def)
  have pre: "''P1'' \<in> set (map product_id (rows_of (open_db [old_row])))
      \<and> enabled (open_db [old_row]) \<and> conn (open_db [old_row]) = Some ?d
      \<and> product_id_unique ?d
      \<and> bind_meta plain_lib [''sensor_mode'' \<mapsto> PJ (JStr ''XX'')] = Some ?bm"
    by (simp add: db_defs pid)
  have rows: "rows_of (open_db [old_row]) = [old_row]"
    by (simp add: db_defs)
  have c1: "rows_of (mark_in_progress plain_lib ''t9'' (open_db [old_row]) ''P1'' None
             [''sensor_mode'' \<mapsto> PJ (JStr ''XX'')] ''new/path'')
     = [old_row\<lparr>status := Text ''in_progress'', file_path := Text ''new/path'',
                updated_at := Text ''t9''\<rparr>]"
    using mark_in_progress_frame[where lib = plain_lib and h = "open_db [old_row]"
        and pid = "''P1''" and d = ?d and bm = ?bm
        and meta = "[''sensor_mode'' \<mapsto> PJ (JStr ''XX'')]" and now = "''t9''"
        and path = "''new/path''" and qid = None, THEN conjunct2, THEN mp, OF pre]
    by (simp add: rows pid)
  show ?thesis
    using c1 by (simp add: old_row_def values_row_def)
qed

end
